theory Spec2Isabelle
  imports Complex_Main "HOL-Library.Sublist"
begin

section \<open>Strings\<close>

text \<open>
  Python \<open>str\<close> values are modelled as \<open>string\<close>; a \<open>char\<close> stands for a code point
  below 256. \<open>isspace\<close> lists the code points below 256 that \<open>str.isspace\<close> accepts,
  which are the ones \<open>str.strip()\<close> removes.
\<close>

definition isspace :: "char \<Rightarrow> bool" where
  "isspace c = ((of_char c :: nat) \<in> {9, 10, 11, 12, 13, 28, 29, 30, 31, 32, 133, 160})"

text \<open>\<open>s.strip()\<close>: drop the leading, then the trailing whitespace.\<close>

definition strip :: "string \<Rightarrow> string" where
  "strip s = rev (dropWhile isspace (rev (dropWhile isspace s)))"

text \<open>\<open>key in url\<close> on strings: \<open>key\<close> occurs as a contiguous substring.\<close>

fun starts_with :: "string \<Rightarrow> string \<Rightarrow> bool" where
  "starts_with [] u = True"
| "starts_with (k # ks) [] = False"
| "starts_with (k # ks) (c # cs) = (k = c \<and> starts_with ks cs)"

fun str_in :: "string \<Rightarrow> string \<Rightarrow> bool" where
  "str_in k [] = (k = [])"
| "str_in k (c # cs) = (starts_with k (c # cs) \<or> str_in k cs)"

text \<open>\<open>str(n)\<close> for a non-negative integer: its decimal digits.\<close>

definition digit_char :: "nat \<Rightarrow> char" where
  "digit_char d = ''0123456789'' ! d"

function str_nat :: "nat \<Rightarrow> string" where
  "str_nat n = (if n < 10 then [digit_char n] else str_nat (n div 10) @ [digit_char (n mod 10)])"
  by pat_completeness auto
termination
  by (relation "measure id") auto

text \<open>The number that a string of decimal digits denotes, to say what \<open>str_nat\<close> prints.\<close>

definition dec_value :: "string \<Rightarrow> nat" where
  "dec_value ds = foldl (\<lambda>acc c. 10 * acc + ((of_char c :: nat) - 48)) 0 ds"

section \<open>Category of a listing URL\<close>

text \<open>
  The dictionary literal of \<open>get_property_type\<close>; \<open>items()\<close> walks it in insertion
  order, so it is kept as an association list.
\<close>

definition property_types :: "(string \<times> (string \<times> string)) list" where
  "property_types =
    [(''houses-for-sale'', (''House'', ''Sale'')),
     (''flats-apartments-for-sale'', (''Apartment'', ''Sale'')),
     (''houses-for-rent'', (''House'', ''Rent'')),
     (''flats-apartments-for-rent'', (''Apartment'', ''Rent'')),
     (''bedsitters-for-rent'', (''Bedsitter'', ''Rent''))]"

text \<open>The \<open>for key, value in property_types.items()\<close> loop with its \<open>return\<close>.\<close>

fun items_loop :: "(string \<times> (string \<times> string)) list \<Rightarrow> string \<Rightarrow> string \<times> string" where
  "items_loop [] url = (''Unknown'', ''Unknown'')"
| "items_loop ((key, val) # rest) url = (if str_in key url then val else items_loop rest url)"

definition get_property_type :: "string \<Rightarrow> string \<times> string" where
  "get_property_type url = items_loop property_types url"

section \<open>Location text\<close>

text \<open>
  \<open>location_text.split(',', 1)\<close> when a comma is present: the text before the first
  comma and the text after it.
\<close>

definition split_first_comma :: "string \<Rightarrow> string \<times> string" where
  "split_first_comma t =
     (takeWhile (\<lambda>c. c \<noteq> CHR '','') t, tl (dropWhile (\<lambda>c. c \<noteq> CHR '','') t))"

definition parse_location :: "string \<Rightarrow> string \<times> string" where
  "parse_location location_text =
     (if CHR '','' \<in> set location_text
      then (let (location, other_details) = split_first_comma location_text
            in (strip location, strip other_details))
      else (strip location_text, ''''))"

section \<open>External capabilities and the state of a run\<close>

text \<open>
  Exceptions are values. Every \<open>except Exception\<close> of the program catches all of
  them alike; the constructor only says where one came from. \<open>MissingSchema\<close> carries
  the URL that was refused, \<open>KeyError\<close> the missing key, the others their text.
\<close>

datatype error =
    RequestException string
  | MissingSchema string
  | GeocoderError string
  | ValueError string
  | KeyError string

text \<open>A plain text between single quotes, as \<open>repr\<close> prints it.\<close>

definition quoted :: "string \<Rightarrow> string" where
  "quoted t = CHR 0x27 # t @ [CHR 0x27]"

text \<open>
  \<open>str(e)\<close> as the \<open>print\<close> calls format it. \<open>str\<close> of a \<open>KeyError\<close> is the \<open>repr\<close> of
  its key. The wording of the \<open>MissingSchema\<close> message is the library's.
\<close>

fun error_text :: "error \<Rightarrow> string" where
  "error_text (RequestException m) = m"
| "error_text (MissingSchema url) =
     ''Invalid URL '' @ quoted url @ '': No scheme supplied. Perhaps you meant https://''
       @ url @ ''?''"
| "error_text (GeocoderError m) = m"
| "error_text (ValueError m) = m"
| "error_text (KeyError k) = quoted k"

type_synonym geopoint = "real \<times> real"

text \<open>
  A listing card as the markup queries of \<open>fetch_properties\<close> see it: the text of
  each node that \<open>prop.find\<close> looks for, \<open>None\<close> when the node is absent. For the
  link, \<open>Some None\<close> is an \<open>a\<close> node without an \<open>href\<close> attribute.
\<close>

record card =
  location_node :: "string option"
  area_node :: "string option"
  beds_node :: "string option"
  baths_node :: "string option"
  link_node :: "string option option"

text \<open>
  A parsed response as the program queries it: the listing cards (\<open>find_all\<close>), the
  pagination container and the forward icon (\<open>has_next_page\<close>), and the text of the
  price node (\<open>extract_price\<close>).
\<close>

record document =
  cards :: "card list"
  pager_div :: bool
  forward_icon :: bool
  price_span :: "string option"

text \<open>
  The collaborators. \<open>http_get n url\<close> is what \<open>requests.get(url)\<close> and the parse of
  the response text give for a URL with a scheme when it is the call number \<open>n\<close> of
  the run (counted from 0),
  \<open>geocode n q\<close> what \<open>geolocator.geocode(q)\<close> gives as the geocoder's call number
  \<open>n\<close>: the same request may be answered differently at different times.
  \<open>geodesic_km\<close> is \<open>geodesic(a, b).km\<close>, which raises on coordinates out of range.
\<close>

record env =
  http_get :: "nat \<Rightarrow> string \<Rightarrow> error + document"
  geocode :: "nat \<Rightarrow> string \<Rightarrow> error + geopoint option"
  geodesic_km :: "geopoint \<Rightarrow> geopoint \<Rightarrow> error + real"

text \<open>
  What a run leaves behind: the URLs handed to \<open>requests.get\<close> and the queries handed
  to the geocoder, oldest first, the lines printed, and the rows written to the CSV file.
\<close>

record world =
  requested :: "string list"
  geocoded :: "string list"
  stdout :: "string list"
  csv :: "string list list"

definition print :: "string \<Rightarrow> world \<Rightarrow> world" where
  "print line s = s\<lparr>stdout := stdout s @ [line]\<rparr>"

text \<open>
  \<open>requests.get(url)\<close>. The library refuses a URL without scheme before anything is
  sent, and a text without a colon has no scheme: for such a text the call always
  raises, whatever the site is. The call is logged all the same.
\<close>

definition requests_get :: "env \<Rightarrow> string \<Rightarrow> world \<Rightarrow> (error + document) \<times> world" where
  "requests_get e url s =
     ((if CHR '':'' \<in> set url then http_get e (length (requested s)) url
       else Inl (MissingSchema url)),
      s\<lparr>requested := requested s @ [url]\<rparr>)"

definition geolocator_geocode ::
  "env \<Rightarrow> string \<Rightarrow> world \<Rightarrow> (error + geopoint option) \<times> world" where
  "geolocator_geocode e q s =
     (geocode e (length (geocoded s)) q, s\<lparr>geocoded := geocoded s @ [q]\<rparr>)"

section \<open>The geographic filter\<close>

definition NAIROBI_COORDS :: geopoint where
  "NAIROBI_COORDS = (- 12921 / 10000, 368219 / 10000)"

definition MAX_DISTANCE :: real where
  "MAX_DISTANCE = 30"

text \<open>
  \<open>is_within_nairobi_area\<close>. A geocoder result is truthy whenever it is not \<open>None\<close>.
  An exception of the geocoder or of the distance computation is caught, printed, and
  the function falls through to \<open>return False\<close>, as it does on no match.
\<close>

definition is_within_nairobi_area :: "env \<Rightarrow> string \<Rightarrow> world \<Rightarrow> (error + bool) \<times> world" where
  "is_within_nairobi_area e location s =
     (case geolocator_geocode e (location @ '', Kenya'') s of
        (Inl ex, s1) \<Rightarrow>
          (Inr False, print (''Error geocoding '' @ location @ '': '' @ error_text ex) s1)
      | (Inr None, s1) \<Rightarrow> (Inr False, s1)
      | (Inr (Some property_coords), s1) \<Rightarrow>
          (case geodesic_km e NAIROBI_COORDS property_coords of
             Inl ex \<Rightarrow>
               (Inr False, print (''Error geocoding '' @ location @ '': '' @ error_text ex) s1)
           | Inr distance \<Rightarrow> (Inr (distance \<le> MAX_DISTANCE), s1)))"

section \<open>The price of a listing\<close>

definition extract_price :: "env \<Rightarrow> string \<Rightarrow> world \<Rightarrow> (error + string) \<times> world" where
  "extract_price e details_url s =
     (case requests_get e details_url s of
        (Inl ex, s1) \<Rightarrow>
          (Inr ''None'',
           print (''Error fetching details from '' @ details_url @ '': '' @ error_text ex) s1)
      | (Inr soup, s1) \<Rightarrow>
          (Inr (case price_span soup of Some t \<Rightarrow> strip t | None \<Rightarrow> ''None''), s1))"

section \<open>The cards of a listing page\<close>

definition text_or_None :: "string option \<Rightarrow> string" where
  "text_or_None node = (case node of Some t \<Rightarrow> strip t | None \<Rightarrow> ''None'')"

text \<open>
  The two conditional expressions of the loop body. Without a location node both
  location fields are the text \<open>None\<close>. \<open>price_tag['href']\<close> raises \<open>KeyError\<close> on
  a link without \<open>href\<close>; without a link node the URL is the text \<open>None\<close>.
\<close>

definition card_location :: "card \<Rightarrow> string \<times> string" where
  "card_location prop =
     (case location_node prop of
        Some t \<Rightarrow> parse_location (strip t)
      | None \<Rightarrow> (''None'', ''None''))"

definition details_url_of :: "card \<Rightarrow> error + string" where
  "details_url_of prop =
     (case link_node prop of
        Some (Some href) \<Rightarrow> Inr (''https://www.buyrentkenya.com'' @ href)
      | Some None \<Rightarrow> Inl (KeyError ''href'')
      | None \<Rightarrow> Inr ''None'')"

text \<open>
  The \<open>for prop in properties\<close> loop of \<open>fetch_properties\<close>. The result is how the loop
  ended (\<open>Inl\<close>: an exception left it), the rows yielded up to there, in order, and the
  state. \<open>extract_price\<close> is called for every card that passed the filter, whatever
  \<open>details_url\<close> is.
\<close>

fun card_loop ::
  "env \<Rightarrow> string \<times> string \<Rightarrow> card list \<Rightarrow> world \<Rightarrow> (error + unit) \<times> string list list \<times> world"
where
  "card_loop e tags [] s = (Inr (), [], s)"
| "card_loop e tags (prop # props) s =
     (let (location_text, other_location_details) = card_location prop
      in case is_within_nairobi_area e location_text s of
           (Inl ex, s1) \<Rightarrow> (Inl ex, [], s1)
         | (Inr False, s1) \<Rightarrow> card_loop e tags props s1
         | (Inr True, s1) \<Rightarrow>
             (let size_text = text_or_None (area_node prop);
                  bedrooms_text = text_or_None (beds_node prop);
                  bathrooms_text = text_or_None (baths_node prop)
              in case details_url_of prop of
                   Inl ex \<Rightarrow> (Inl ex, [], s1)
                 | Inr details_url \<Rightarrow>
                     (case extract_price e details_url s1 of
                        (Inl ex, s2) \<Rightarrow> (Inl ex, [], s2)
                      | (Inr detailed_price, s2) \<Rightarrow>
                          (let row = [location_text, other_location_details, size_text,
                                      bedrooms_text, bathrooms_text, detailed_price,
                                      fst tags, snd tags];
                               (r, rows, s3) = card_loop e tags props s2
                           in (r, row # rows, s3)))))"

text \<open>
  \<open>fetch_properties\<close>: the generator run to its end. Whatever is raised inside the
  \<open>try\<close> is caught and printed, and the generator stops; rows yielded before stay
  yielded.
\<close>

definition fetch_properties :: "env \<Rightarrow> string \<Rightarrow> world \<Rightarrow> (error + string list list) \<times> world" where
  "fetch_properties e url s =
     (case requests_get e url s of
        (Inl ex, s1) \<Rightarrow>
          (Inr [], print (''Error fetching properties from '' @ url @ '': '' @ error_text ex) s1)
      | (Inr soup, s1) \<Rightarrow>
          (case card_loop e (get_property_type url) (cards soup) s1 of
             (Inl ex, rows, s2) \<Rightarrow>
               (Inr rows,
                print (''Error fetching properties from '' @ url @ '': '' @ error_text ex) s2)
           | (Inr u, rows, s2) \<Rightarrow> (Inr rows, s2)))"

section \<open>Pagination and the run\<close>

definition has_next_page :: "document \<Rightarrow> bool" where
  "has_next_page soup = (pager_div soup \<and> forward_icon soup)"

definition page_url :: "string \<Rightarrow> nat \<Rightarrow> string" where
  "page_url base_url page = (if page > 1 then base_url @ ''?page='' @ str_nat page else base_url)"

definition header :: "string list" where
  "header = [''Location'', ''Other Location Details'', ''Size'', ''Bedrooms'', ''Bathrooms'',
             ''Price'', ''Property Type'', ''Purchase Type'']"

definition writerows :: "string list list \<Rightarrow> world \<Rightarrow> world" where
  "writerows rows s = s\<lparr>csv := csv s @ rows\<rparr>"

text \<open>
  One pass through the body of \<open>while True\<close>, for the page number \<open>page\<close>. The result
  \<open>Inr True\<close> goes on to the next page, \<open>Inr False\<close> is the \<open>break\<close>, and \<open>Inl\<close> is an
  exception that nothing in \<open>scrape_all_properties\<close> catches: the \<open>requests.get\<close> of
  the loop itself stands outside every \<open>try\<close>.
\<close>

definition page_cycle :: "env \<Rightarrow> string \<Rightarrow> nat \<Rightarrow> world \<Rightarrow> (error + bool) \<times> world" where
  "page_cycle e base_url page s =
     (let url = page_url base_url page;
          s0 = print (''Fetching data from '' @ url @ ''...'') s
      in case requests_get e url s0 of
           (Inl ex, s1) \<Rightarrow> (Inl ex, s1)
         | (Inr soup, s1) \<Rightarrow>
             (case fetch_properties e url s1 of
                (Inl ex, s2) \<Rightarrow> (Inl ex, s2)
              | (Inr rows, s2) \<Rightarrow>
                  (let s3 = writerows rows s2;
                       properties_found = (rows \<noteq> [])
                   in if \<not> properties_found \<or> \<not> has_next_page soup
                      then (Inr False, s3)
                      else (Inr True, s3))))"

text \<open>
  The \<open>while True\<close> loop of one category. Nothing bounds the number of pages, so the
  model counts its passes down from \<open>fuel\<close>; \<open>None\<close> means the fuel ran out before
  the loop ended.
\<close>

fun paginate :: "nat \<Rightarrow> env \<Rightarrow> string \<Rightarrow> nat \<Rightarrow> world \<Rightarrow> ((error + unit) \<times> world) option" where
  "paginate 0 e base_url page s = None"
| "paginate (Suc fuel) e base_url page s =
     (case page_cycle e base_url page s of
        (Inl ex, s1) \<Rightarrow> Some (Inl ex, s1)
      | (Inr False, s1) \<Rightarrow> Some (Inr (), s1)
      | (Inr True, s1) \<Rightarrow> paginate fuel e base_url (page + 1) s1)"

text \<open>The \<open>for base_url in base_urls\<close> loop; each category gets the full fuel.\<close>

fun category_loop ::
  "nat \<Rightarrow> env \<Rightarrow> string list \<Rightarrow> world \<Rightarrow> ((error + unit) \<times> world) option" where
  "category_loop fuel e [] s = Some (Inr (), s)"
| "category_loop fuel e (base_url # rest) s =
     (case paginate fuel e base_url 1 s of
        None \<Rightarrow> None
      | Some (Inl ex, s1) \<Rightarrow> Some (Inl ex, s1)
      | Some (Inr u, s1) \<Rightarrow> category_loop fuel e rest s1)"

text \<open>
  \<open>scrape_all_properties\<close>: opening the file with mode \<open>w\<close> empties it, then the header
  row is written, then the categories are walked.
\<close>

definition scrape_all_properties ::
  "nat \<Rightarrow> env \<Rightarrow> string list \<Rightarrow> world \<Rightarrow> ((error + unit) \<times> world) option" where
  "scrape_all_properties fuel e base_urls s =
     category_loop fuel e base_urls (writerows [header] (s\<lparr>csv := []\<rparr>))"

definition base_urls :: "string list" where
  "base_urls =
    [''https://www.buyrentkenya.com/houses-for-sale'',
     ''https://www.buyrentkenya.com/flats-apartments-for-sale'',
     ''https://www.buyrentkenya.com/houses-for-rent'',
     ''https://www.buyrentkenya.com/flats-apartments-for-rent'',
     ''https://www.buyrentkenya.com/bedsitters-for-rent'']"

definition start :: world where
  "start = \<lparr>requested = [], geocoded = [], stdout = [], csv = []\<rparr>"

text \<open>
  The script: the exit status is 0 when \<open>scrape_all_properties\<close> returns and 1 when an
  exception leaves it, in which case the last line is not printed.
\<close>

definition main :: "nat \<Rightarrow> env \<Rightarrow> (nat \<times> world) option" where
  "main fuel e =
     (case scrape_all_properties fuel e base_urls start of
        None \<Rightarrow> None
      | Some (Inl ex, s) \<Rightarrow> Some (1, s)
      | Some (Inr u, s) \<Rightarrow> Some (0, print ''File saved successfully'' s))"

section \<open>Notions used to state the properties\<close>

text \<open>The row that the loop body builds for a card, given the price it obtained.\<close>

definition row_of_card :: "string \<times> string \<Rightarrow> card \<Rightarrow> string \<Rightarrow> string list" where
  "row_of_card tags prop price =
     [fst (card_location prop), snd (card_location prop), text_or_None (area_node prop),
      text_or_None (beds_node prop), text_or_None (baths_node prop), price,
      fst tags, snd tags]"

text \<open>The two logs of a run only grow at their ends.\<close>

definition grows :: "world \<Rightarrow> world \<Rightarrow> bool" where
  "grows s s' = (prefix (requested s) (requested s') \<and> prefix (geocoded s) (geocoded s'))"

text \<open>
  The geocoder was asked about \<open>location\<close> as its call number \<open>n\<close>, not before call
  \<open>lo\<close>, and the answer lay within the radius.
\<close>

definition geo_checked :: "env \<Rightarrow> nat \<Rightarrow> world \<Rightarrow> string \<Rightarrow> bool" where
  "geo_checked e lo s location =
     (\<exists>n p d. lo \<le> n \<and> n < length (geocoded s)
        \<and> geocoded s ! n = location @ '', Kenya''
        \<and> geocode e n (location @ '', Kenya'') = Inr (Some p)
        \<and> geodesic_km e NAIROBI_COORDS p = Inr d \<and> d \<le> MAX_DISTANCE)"

text \<open>
  Where a row written between the states \<open>s\<close> and \<open>s'\<close> comes from: a card of a page
  that was fetched in between, under the tags of that page's URL, and after the
  geocoder placed the card's location within the radius.
\<close>

definition row_ok :: "env \<Rightarrow> world \<Rightarrow> world \<Rightarrow> string list \<Rightarrow> bool" where
  "row_ok e s s' row =
     (\<exists>n doc prop price. length (requested s) \<le> n \<and> n < length (requested s')
        \<and> http_get e n (requested s' ! n) = Inr doc \<and> prop \<in> set (cards doc)
        \<and> row = row_of_card (get_property_type (requested s' ! n)) prop price
        \<and> geo_checked e (length (geocoded s)) s' (fst (card_location prop)))"

section \<open>A sample site\<close>

text \<open>
  A small site to run the program on: a first page of houses for sale with three
  cards and a next-page control, an empty second page, and one detail page. The page
  of houses for rent has a card and the pagination container but no forward icon,
  the page of bedsitters a card and the icon but no container. Karen lies 13 km from
  the centre, Thika exactly 30 km, Nyali 440 km. The Thika card has no link, one card
  has no location node, one has a link without \<open>href\<close>. Every other request fails,
  and so does the geocoder on the query for \<open>Timeout\<close>.
\<close>

definition karen_card :: card where
  "karen_card = \<lparr>location_node = Some '' Karen, Nairobi '', area_node = Some ''450 m2'',
     beds_node = Some '' 4 '', baths_node = None,
     link_node = Some (Some ''/listings/karen-villa'')\<rparr>"

definition nyali_card :: card where
  "nyali_card = \<lparr>location_node = Some ''Nyali, Mombasa'', area_node = None,
     beds_node = Some ''2'', baths_node = Some ''1'',
     link_node = Some (Some ''/listings/nyali-flat'')\<rparr>"

definition thika_card :: card where
  "thika_card = \<lparr>location_node = Some ''Thika'', area_node = None,
     beds_node = Some ''3'', baths_node = Some ''2'', link_node = None\<rparr>"

definition unplaced_card :: card where
  "unplaced_card = \<lparr>location_node = None, area_node = Some ''90 m2'',
     beds_node = Some ''1'', baths_node = Some ''1'',
     link_node = Some (Some ''/listings/studio'')\<rparr>"

definition nohref_card :: card where
  "nohref_card = \<lparr>location_node = Some ''Karen'', area_node = None,
     beds_node = None, baths_node = None, link_node = Some None\<rparr>"

definition sale_url :: string where
  "sale_url = ''https://www.buyrentkenya.com/houses-for-sale''"

definition sample_http :: "string \<Rightarrow> error + document" where
  "sample_http url =
     (if url = ''https://www.buyrentkenya.com/houses-for-sale''
      then Inr \<lparr>cards = [karen_card, nyali_card, thika_card], pager_div = True,
                forward_icon = True, price_span = None\<rparr>
      else if url = ''https://www.buyrentkenya.com/houses-for-sale?page=2''
      then Inr \<lparr>cards = [], pager_div = True, forward_icon = False, price_span = None\<rparr>
      else if url = ''https://www.buyrentkenya.com/listings/karen-villa''
      then Inr \<lparr>cards = [], pager_div = False, forward_icon = False,
                price_span = Some '' KSh 45,000,000 ''\<rparr>
      else if url = ''https://www.buyrentkenya.com/houses-for-rent''
      then Inr \<lparr>cards = [karen_card], pager_div = True, forward_icon = False,
                price_span = None\<rparr>
      else if url = ''https://www.buyrentkenya.com/bedsitters-for-rent''
      then Inr \<lparr>cards = [karen_card], pager_div = False, forward_icon = True,
                price_span = None\<rparr>
      else Inl (RequestException ''no response''))"

definition sample_geocode :: "string \<Rightarrow> error + geopoint option" where
  "sample_geocode q =
     (if q = ''Karen, Kenya'' then Inr (Some (- 13 / 10, 367 / 10))
      else if q = ''Thika, Kenya'' then Inr (Some (- 1, 37))
      else if q = ''Nyali, Kenya'' then Inr (Some (- 4, 397 / 10))
      else if q = ''Timeout, Kenya'' then Inl (GeocoderError ''timed out'')
      else Inr None)"

definition sample_geodesic :: "geopoint \<Rightarrow> geopoint \<Rightarrow> error + real" where
  "sample_geodesic a b =
     (if b = (- 13 / 10, 367 / 10) then Inr 13
      else if b = (- 1, 37) then Inr 30
      else Inr 440)"

definition sample_site :: env where
  "sample_site = \<lparr>http_get = (\<lambda>n. sample_http), geocode = (\<lambda>n. sample_geocode),
     geodesic_km = sample_geodesic\<rparr>"

text \<open>The same site when the very first request of the run gets no answer.\<close>

definition flaky_site :: env where
  "flaky_site = \<lparr>http_get = (\<lambda>n url. if n = 0 then Inl (RequestException ''timed out'')
                                       else sample_http url),
     geocode = (\<lambda>n. sample_geocode), geodesic_km = sample_geodesic\<rparr>"

text \<open>What the run over the sample site's category leaves behind.\<close>

definition sample_end :: world where
  "sample_end =
     \<lparr>requested = [''https://www.buyrentkenya.com/houses-for-sale'',
                   ''https://www.buyrentkenya.com/houses-for-sale'',
                   ''https://www.buyrentkenya.com/listings/karen-villa'',
                   ''None'',
                   ''https://www.buyrentkenya.com/houses-for-sale?page=2'',
                   ''https://www.buyrentkenya.com/houses-for-sale?page=2''],
      geocoded = [''Karen, Kenya'', ''Nyali, Kenya'', ''Thika, Kenya''],
      stdout = [''Fetching data from https://www.buyrentkenya.com/houses-for-sale...'',
                ''Error fetching details from None: '' @ error_text (MissingSchema ''None''),
                ''Fetching data from https://www.buyrentkenya.com/houses-for-sale?page=2...''],
      csv = [[''Location'', ''Other Location Details'', ''Size'', ''Bedrooms'', ''Bathrooms'',
              ''Price'', ''Property Type'', ''Purchase Type''],
             [''Karen'', ''Nairobi'', ''450 m2'', ''4'', ''None'', ''KSh 45,000,000'',
              ''House'', ''Sale''],
             [''Thika'', [], ''None'', ''3'', ''2'', ''None'', ''House'', ''Sale'']]\<rparr>"

section \<open>Facts about strings\<close>

lemma starts_with_iff: "starts_with k u \<longleftrightarrow> (\<exists>s. u = k @ s)"
  by (induction k u rule: starts_with.induct) auto

lemma str_in_iff: "str_in k u \<longleftrightarrow> (\<exists>p s. u = p @ k @ s)"
proof (induction u)
  case Nil
  then show ?case by auto
next
  case (Cons c cs)
  have "(\<exists>p s. c # cs = p @ k @ s) \<longleftrightarrow> (\<exists>s. c # cs = k @ s) \<or> (\<exists>p s. cs = p @ k @ s)"
  proof
    assume "\<exists>p s. c # cs = p @ k @ s"
    then obtain p s where ps: "c # cs = p @ k @ s" by blast
    show "(\<exists>s. c # cs = k @ s) \<or> (\<exists>p s. cs = p @ k @ s)"
    proof (cases p)
      case Nil
      with ps show ?thesis by auto
    next
      case (Cons a p')
      with ps have "cs = p' @ k @ s" by simp
      then show ?thesis by blast
    qed
  next
    assume "(\<exists>s. c # cs = k @ s) \<or> (\<exists>p s. cs = p @ k @ s)"
    then show "\<exists>p s. c # cs = p @ k @ s"
    proof
      assume "\<exists>s. c # cs = k @ s"
      then obtain s where "c # cs = [] @ k @ s" by auto
      then show ?thesis by blast
    next
      assume "\<exists>p s. cs = p @ k @ s"
      then obtain p s where "c # cs = (c # p) @ k @ s" by auto
      then show ?thesis by blast
    qed
  qed
  with Cons show ?case by (simp add: starts_with_iff)
qed

lemma str_in_sublist: "str_in k u = sublist k u"
  by (simp add: str_in_iff sublist_def)

lemma comma_not_space: "\<not> isspace (CHR '','')"
  by (simp add: isspace_def)

lemma rev_dropWhile_rev:
  "m = rev (dropWhile P (rev m)) @ rev (takeWhile P (rev m))"
proof -
  have "rev m = takeWhile P (rev m) @ dropWhile P (rev m)" by simp
  then have "rev (rev m) = rev (takeWhile P (rev m) @ dropWhile P (rev m))" by (simp only:)
  then show ?thesis by (simp only: rev_rev_ident rev_append)
qed

lemma dropWhile_all: "(\<forall>c \<in> set l. P c) \<Longrightarrow> dropWhile P l = []"
  by simp

lemma strip_decomp:
  "\<exists>l r. s = l @ strip s @ r \<and> (\<forall>c \<in> set l. isspace c) \<and> (\<forall>c \<in> set r. isspace c)"
proof -
  let ?l = "takeWhile isspace s"
  let ?m = "dropWhile isspace s"
  let ?r = "rev (takeWhile isspace (rev ?m))"
  have m: "?m = strip s @ ?r"
    unfolding strip_def by (rule rev_dropWhile_rev)
  have "s = ?l @ ?m" by simp
  with m have "s = ?l @ strip s @ ?r" by simp
  moreover have "\<forall>c \<in> set ?l. isspace c" by (auto dest: set_takeWhileD)
  moreover have "\<forall>c \<in> set ?r. isspace c" by (auto dest: set_takeWhileD)
  ultimately show ?thesis by blast
qed

lemma rstrip_last: "rev (dropWhile P (rev m)) \<noteq> [] \<Longrightarrow> \<not> P (last (rev (dropWhile P (rev m))))"
proof -
  assume "rev (dropWhile P (rev m)) \<noteq> []"
  then have ne: "dropWhile P (rev m) \<noteq> []" by simp
  then have "\<not> P (hd (dropWhile P (rev m)))" by (rule hd_dropWhile)
  with ne show ?thesis by (simp add: last_rev)
qed

lemma rstrip_hd:
  assumes "rev (dropWhile P (rev m)) \<noteq> []"
  shows "hd (rev (dropWhile P (rev m))) = hd m"
proof -
  have "hd m = hd (rev (dropWhile P (rev m)) @ rev (takeWhile P (rev m)))"
    using rev_dropWhile_rev[of m P] by (simp only:)
  also have "\<dots> = hd (rev (dropWhile P (rev m)))" using assms by (rule hd_append2)
  finally show ?thesis by (rule sym)
qed

lemma rstrip_Nil: "rev (dropWhile P (rev [])) = []"
  by simp

lemma strip_trimmed:
  assumes "strip s \<noteq> []"
  shows "\<not> isspace (hd (strip s)) \<and> \<not> isspace (last (strip s))"
proof -
  let ?m = "dropWhile isspace s"
  from assms have ne: "rev (dropWhile isspace (rev ?m)) \<noteq> []" unfolding strip_def .
  have mne: "?m \<noteq> []"
  proof
    assume "?m = []"
    then have "rev (dropWhile isspace (rev ?m)) = []" by (simp only: rstrip_Nil)
    with ne show False by simp
  qed
  then have "\<not> isspace (hd ?m)" by (rule hd_dropWhile)
  with rstrip_hd[OF ne] have "\<not> isspace (hd (strip s))" unfolding strip_def by simp
  moreover from rstrip_last[OF ne] have "\<not> isspace (last (strip s))" unfolding strip_def .
  ultimately show ?thesis by (rule conjI)
qed

lemma strip_ws_prefix: "(\<forall>c \<in> set l. isspace c) \<Longrightarrow> strip (l @ x) = strip x"
  by (simp add: strip_def dropWhile_append3 dropWhile_append)

lemma strip_ws_suffix: "(\<forall>c \<in> set r. isspace c) \<Longrightarrow> strip (x @ r) = strip x"
proof -
  assume r: "\<forall>c \<in> set r. isspace c"
  show ?thesis
  proof (cases "\<forall>c \<in> set x. isspace c")
    case True
    with r show ?thesis by (simp add: strip_def dropWhile_all)
  next
    case False
    then have "dropWhile isspace (x @ r) = dropWhile isspace x @ r"
      by (auto simp: dropWhile_append)
    moreover have "dropWhile isspace (rev r @ y) = dropWhile isspace y" for y
      using r by (simp add: dropWhile_append)
    ultimately show ?thesis by (simp add: strip_def)
  qed
qed

lemma strip_idem: "strip (strip s) = strip s"
proof -
  obtain l r where d: "s = l @ strip s @ r" "\<forall>c \<in> set l. isspace c" "\<forall>c \<in> set r. isspace c"
    using strip_decomp by blast
  have "strip s = strip (l @ strip s @ r)" using d(1) by simp
  also have "\<dots> = strip (strip s @ r)" using d(2) by (rule strip_ws_prefix)
  also have "\<dots> = strip (strip s)" using d(3) by (rule strip_ws_suffix)
  finally show ?thesis by simp
qed

lemma strip_subset: "set (strip s) \<subseteq> set s"
proof -
  obtain l r where d: "s = l @ strip s @ r" using strip_decomp by blast
  have "set (strip s) \<subseteq> set (l @ strip s @ r)" by auto
  with d show ?thesis by simp
qed

lemma split_first_comma_eq:
  "CHR '','' \<notin> set a \<Longrightarrow> split_first_comma (a @ CHR '','' # b) = (a, b)"
  by (simp add: split_first_comma_def takeWhile_append2 dropWhile_append3 dropWhile_append)

lemma parse_location_fst:
  "fst (parse_location (strip t)) = strip (takeWhile (\<lambda>c. c \<noteq> CHR '','') t)"
proof -
  let ?nc = "\<lambda>c. c \<noteq> CHR '',''"
  obtain l r where d: "t = l @ strip t @ r" "\<forall>c \<in> set l. isspace c" "\<forall>c \<in> set r. isspace c"
    using strip_decomp by blast
  let ?m = "strip t"
  have lnc: "\<forall>c \<in> set l. ?nc c" using d(2) comma_not_space by auto
  have rnc: "\<forall>c \<in> set r. ?nc c" using d(3) comma_not_space by auto
  have fstm: "fst (parse_location ?m) = strip (takeWhile ?nc ?m)"
  proof (cases "CHR '','' \<in> set ?m")
    case True
    then show ?thesis by (simp add: parse_location_def split_first_comma_def)
  next
    case False
    then have tk: "takeWhile ?nc ?m = ?m" by (auto simp: takeWhile_eq_all_conv)
    show ?thesis using False unfolding parse_location_def tk by simp
  qed
  have tw: "takeWhile ?nc t = l @ takeWhile ?nc (?m @ r)"
  proof -
    have "takeWhile ?nc (l @ (?m @ r)) = l @ takeWhile ?nc (?m @ r)"
      using lnc by (intro takeWhile_append2) auto
    with d(1) show ?thesis by simp
  qed
  show ?thesis
  proof (cases "CHR '','' \<in> set ?m")
    case True
    then have "takeWhile ?nc (?m @ r) = takeWhile ?nc ?m"
      by (intro takeWhile_append1[of "CHR '',''"]) auto
    with tw have "takeWhile ?nc t = l @ takeWhile ?nc ?m" by simp
    then have "strip (takeWhile ?nc t) = strip (takeWhile ?nc ?m)"
      using d(2) by (simp add: strip_ws_prefix)
    with fstm show ?thesis by simp
  next
    case False
    then have "\<forall>c \<in> set (?m @ r). ?nc c" using rnc by auto
    then have "takeWhile ?nc (?m @ r) = ?m @ r" by (simp add: takeWhile_eq_all_conv)
    with tw d(1) have a: "takeWhile ?nc t = t" by simp
    from False have b: "takeWhile ?nc ?m = ?m" by (auto simp: takeWhile_eq_all_conv)
    from fstm have "fst (parse_location ?m) = strip ?m" by (simp only: b)
    also have "\<dots> = strip t" by (rule strip_idem)
    also have "\<dots> = strip (takeWhile ?nc t)" by (simp only: a)
    finally show ?thesis .
  qed
qed

lemma strip_takeWhile_no_comma: "CHR '','' \<notin> set (strip (takeWhile (\<lambda>c. c \<noteq> CHR '','') t))"
proof -
  have "set (strip (takeWhile (\<lambda>c. c \<noteq> CHR '','') t)) \<subseteq> set (takeWhile (\<lambda>c. c \<noteq> CHR '','') t)"
    by (rule strip_subset)
  moreover have "CHR '','' \<notin> set (takeWhile (\<lambda>c. c \<noteq> CHR '','') t)"
    by (auto dest: set_takeWhileD)
  ultimately show ?thesis by auto
qed


section \<open>The category table\<close>

lemma items_loop_none:
  "(\<forall>kv \<in> set tab. \<not> str_in (fst kv) url) \<Longrightarrow> items_loop tab url = (''Unknown'', ''Unknown'')"
  by (induction tab) auto

lemma items_loop_first:
  "i < length tab \<Longrightarrow> str_in (fst (tab ! i)) url \<Longrightarrow> (\<forall>j<i. \<not> str_in (fst (tab ! j)) url)
   \<Longrightarrow> items_loop tab url = snd (tab ! i)"
proof (induction tab arbitrary: i)
  case Nil
  then show ?case by simp
next
  case (Cons kv tab)
  obtain k v where kv: "kv = (k, v)" by (cases kv)
  show ?case
  proof (cases i)
    case 0
    with Cons.prems kv show ?thesis by simp
  next
    case (Suc n)
    from Cons.prems(3) Suc have nk: "\<not> str_in k url" using kv by force
    from Cons.prems(3) Suc have "\<forall>j<n. \<not> str_in (fst (tab ! j)) url" by force
    with Cons.IH[of n] Cons.prems(1,2) Suc have "items_loop tab url = snd (tab ! n)" by simp
    with nk kv Suc show ?thesis by simp
  qed
qed


section \<open>Facts about the effects\<close>

lemma print_fields [simp]:
  "requested (print l s) = requested s" "geocoded (print l s) = geocoded s"
  "csv (print l s) = csv s" "stdout (print l s) = stdout s @ [l]"
  by (simp_all add: print_def)

lemma writerows_fields [simp]:
  "requested (writerows rs s) = requested s" "geocoded (writerows rs s) = geocoded s"
  "csv (writerows rs s) = csv s @ rs" "stdout (writerows rs s) = stdout s"
  by (simp_all add: writerows_def)

lemma requests_get_world:
  "requests_get e u s = (r, s') \<Longrightarrow>
     (\<forall>doc. r = Inr doc \<longrightarrow> http_get e (length (requested s)) u = Inr doc)
     \<and> requested s' = requested s @ [u]
     \<and> geocoded s' = geocoded s \<and> csv s' = csv s"
  by (auto simp: requests_get_def split: if_splits)

lemma requests_get_no_scheme:
  "CHR '':'' \<notin> set u \<Longrightarrow> fst (requests_get e u s) = Inl (MissingSchema u)"
  by (simp add: requests_get_def)

lemma is_within_result:
  "fst (is_within_nairobi_area e location s) =
     Inr (\<exists>p d. geocode e (length (geocoded s)) (location @ '', Kenya'') = Inr (Some p)
            \<and> geodesic_km e NAIROBI_COORDS p = Inr d \<and> d \<le> MAX_DISTANCE)"
  by (auto simp: is_within_nairobi_area_def geolocator_geocode_def
           split: sum.splits option.splits)

lemma is_within_world:
  "is_within_nairobi_area e location s = (r, s') \<Longrightarrow>
     geocoded s' = geocoded s @ [location @ '', Kenya''] \<and> requested s' = requested s
     \<and> csv s' = csv s"
  by (auto simp: is_within_nairobi_area_def geolocator_geocode_def
           split: sum.splits option.splits)

lemma is_within_not_Inl: "is_within_nairobi_area e location s \<noteq> (Inl ex, s')"
  by (auto simp: is_within_nairobi_area_def geolocator_geocode_def
           split: sum.splits option.splits)

lemma extract_price_world:
  "extract_price e u s = (r, s') \<Longrightarrow>
     (\<exists>p. r = Inr p) \<and> requested s' = requested s @ [u] \<and> geocoded s' = geocoded s
     \<and> csv s' = csv s"
  by (auto simp: extract_price_def requests_get_def split: sum.splits)

lemma extract_price_failed:
  "fst (requests_get e u s) = Inl ex \<Longrightarrow> fst (extract_price e u s) = Inr ''None''"
  by (simp add: extract_price_def case_prod_unfold)


lemma extract_price_not_Inl: "extract_price e u s \<noteq> (Inl ex, s')"
  by (auto simp: extract_price_def requests_get_def split: sum.splits)

lemma card_loop_Cons_cases:
  assumes "card_loop e tags (c # cs) s = (r, rows, s')"
  obtains
    (dropped) s1 where
      "is_within_nairobi_area e (fst (card_location c)) s = (Inr False, s1)"
      "card_loop e tags cs s1 = (r, rows, s')"
  | (keyerror) s1 ex where
      "is_within_nairobi_area e (fst (card_location c)) s = (Inr True, s1)"
      "details_url_of c = Inl ex" "r = Inl ex" "rows = []" "s' = s1"
  | (yielded) s1 u price s2 rows' where
      "is_within_nairobi_area e (fst (card_location c)) s = (Inr True, s1)"
      "details_url_of c = Inr u"
      "extract_price e u s1 = (Inr price, s2)"
      "card_loop e tags cs s2 = (r, rows', s')"
      "rows = row_of_card tags c price # rows'"
proof -
  obtain w s1 where w: "is_within_nairobi_area e (fst (card_location c)) s = (w, s1)"
    by (cases "is_within_nairobi_area e (fst (card_location c)) s")
  with is_within_not_Inl obtain b where b: "w = Inr b" by (cases w) auto
  show thesis
  proof (cases b)
    case False
    with assms w b have "card_loop e tags cs s1 = (r, rows, s')"
      by (simp add: case_prod_unfold)
    with w b False show thesis by (intro dropped) simp_all
  next
    case True
    show thesis
    proof (cases "details_url_of c")
      case (Inl ex)
      with assms w b True have "r = Inl ex" "rows = []" "s' = s1"
        by (simp_all add: case_prod_unfold)
      with w b True Inl show thesis by (intro keyerror) simp_all
    next
      case (Inr u)
      obtain pr s2 where pr: "extract_price e u s1 = (pr, s2)"
        by (cases "extract_price e u s1")
      with extract_price_not_Inl obtain price where price: "pr = Inr price" by (cases pr) auto
      obtain r' rows' s3 where rest: "card_loop e tags cs s2 = (r', rows', s3)"
        by (cases "card_loop e tags cs s2")
      with assms w b True Inr pr price
      have "r = r'" "rows = row_of_card tags c price # rows'" "s' = s3"
        by (simp_all add: case_prod_unfold row_of_card_def Let_def)
      with w b True Inr pr price rest show thesis by (intro yielded) simp_all
    qed
  qed
qed


lemma grows_refl: "grows s s"
  by (simp add: grows_def)

lemma grows_trans: "grows s s1 \<Longrightarrow> grows s1 s2 \<Longrightarrow> grows s s2"
  by (auto simp: grows_def)

lemma prefix_nth: "prefix xs ys \<Longrightarrow> n < length xs \<Longrightarrow> ys ! n = xs ! n"
  by (auto simp: prefix_def nth_append)

lemma geo_checked_mono:
  assumes "geo_checked e lo s l" "prefix (geocoded s) (geocoded s')" "lo' \<le> lo"
  shows "geo_checked e lo' s' l"
proof -
  from assms(1) obtain n p d where n: "lo \<le> n" "n < length (geocoded s)"
      "geocoded s ! n = l @ '', Kenya''"
      "geocode e n (l @ '', Kenya'') = Inr (Some p)"
      "geodesic_km e NAIROBI_COORDS p = Inr d" "d \<le> MAX_DISTANCE"
    unfolding geo_checked_def by blast
  from assms(2) n(2) have "n < length (geocoded s')" "geocoded s' ! n = geocoded s ! n"
    by (auto simp: prefix_nth dest: prefix_length_le)
  with n assms(3) show ?thesis unfolding geo_checked_def
    by (intro exI[of _ n] exI[of _ p] exI[of _ d]) auto
qed

lemma is_within_grows: "is_within_nairobi_area e l s = (r, s') \<Longrightarrow> grows s s'"
  by (auto simp: grows_def dest: is_within_world)

lemma extract_price_grows: "extract_price e u s = (r, s') \<Longrightarrow> grows s s'"
  by (auto simp: grows_def dest: extract_price_world)

lemma is_within_True_checked:
  assumes "is_within_nairobi_area e l s = (Inr True, s1)"
  shows "geo_checked e (length (geocoded s)) s1 l"
proof -
  from assms is_within_result[of e l s]
  have "\<exists>p d. geocode e (length (geocoded s)) (l @ '', Kenya'') = Inr (Some p)
            \<and> geodesic_km e NAIROBI_COORDS p = Inr d \<and> d \<le> MAX_DISTANCE" by simp
  then obtain p d where pd: "geocode e (length (geocoded s)) (l @ '', Kenya'') = Inr (Some p)"
      "geodesic_km e NAIROBI_COORDS p = Inr d" "d \<le> MAX_DISTANCE" by blast
  from assms have "geocoded s1 = geocoded s @ [l @ '', Kenya'']"
    by (simp add: is_within_world)
  with pd show ?thesis unfolding geo_checked_def
    by (intro exI[of _ "length (geocoded s)"] exI[of _ p] exI[of _ d]) simp
qed

lemma card_loop_rows:
  "card_loop e tags cs s = (r, rows, s') \<Longrightarrow>
     grows s s' \<and> csv s' = csv s
     \<and> (\<forall>row \<in> set rows. \<exists>c price. c \<in> set cs \<and> row = row_of_card tags c price
            \<and> geo_checked e (length (geocoded s)) s' (fst (card_location c)))"
proof (induction cs arbitrary: s r rows s')
  case Nil
  then show ?case by (simp add: grows_refl)
next
  case (Cons c cs)
  from Cons.prems show ?case
  proof (cases rule: card_loop_Cons_cases)
    case (dropped s1)
    from dropped(1) have g1: "grows s s1" "csv s1 = csv s" "length (geocoded s) \<le> length (geocoded s1)"
      by (auto simp: is_within_grows is_within_world)
    from Cons.IH[OF dropped(2)] have ih: "grows s1 s'" "csv s' = csv s1"
      "\<forall>row \<in> set rows. \<exists>c price. c \<in> set cs \<and> row = row_of_card tags c price
            \<and> geo_checked e (length (geocoded s1)) s' (fst (card_location c))" by auto
    have "\<forall>row \<in> set rows. \<exists>c' price. c' \<in> set (c # cs) \<and> row = row_of_card tags c' price
            \<and> geo_checked e (length (geocoded s)) s' (fst (card_location c'))"
    proof
      fix row assume "row \<in> set rows"
      with ih(3) obtain c' price where c': "c' \<in> set cs" "row = row_of_card tags c' price"
        "geo_checked e (length (geocoded s1)) s' (fst (card_location c'))" by blast
      from geo_checked_mono[OF c'(3) _ g1(3)] have "geo_checked e (length (geocoded s)) s' (fst (card_location c'))"
        by simp
      with c' show "\<exists>c' price. c' \<in> set (c # cs) \<and> row = row_of_card tags c' price
            \<and> geo_checked e (length (geocoded s)) s' (fst (card_location c'))" by auto
    qed
    with g1 ih show ?thesis by (auto intro: grows_trans)
  next
    case (keyerror s1 ex)
    then show ?thesis by (auto simp: is_within_grows is_within_world)
  next
    case (yielded s1 u price s2 rows')
    from yielded(1) have g1: "grows s s1" "csv s1 = csv s" "length (geocoded s) \<le> length (geocoded s1)"
      by (auto simp: is_within_grows is_within_world)
    from yielded(3) have g2: "grows s1 s2" "csv s2 = csv s1" "geocoded s2 = geocoded s1"
      by (auto simp: extract_price_grows extract_price_world)
    from Cons.IH[OF yielded(4)] have ih: "grows s2 s'" "csv s' = csv s2"
      "\<forall>row \<in> set rows'. \<exists>c price. c \<in> set cs \<and> row = row_of_card tags c price
            \<and> geo_checked e (length (geocoded s2)) s' (fst (card_location c))" by auto
    from g2(1) ih(1) have g12: "grows s1 s'" by (rule grows_trans)
    have first: "geo_checked e (length (geocoded s)) s' (fst (card_location c))"
      using geo_checked_mono[OF is_within_True_checked[OF yielded(1)], of s' "length (geocoded s)"] g12
      by (simp add: grows_def)
    have "\<forall>row \<in> set rows. \<exists>c' price. c' \<in> set (c # cs) \<and> row = row_of_card tags c' price
            \<and> geo_checked e (length (geocoded s)) s' (fst (card_location c'))"
    proof
      fix row assume "row \<in> set rows"
      with yielded(5) consider "row = row_of_card tags c price" | "row \<in> set rows'" by auto
      then show "\<exists>c' price. c' \<in> set (c # cs) \<and> row = row_of_card tags c' price
            \<and> geo_checked e (length (geocoded s)) s' (fst (card_location c'))"
      proof cases
        case 1
        with first show ?thesis by auto
      next
        case 2
        with ih(3) obtain c' price' where c': "c' \<in> set cs" "row = row_of_card tags c' price'"
          "geo_checked e (length (geocoded s2)) s' (fst (card_location c'))" by blast
        from geo_checked_mono[OF c'(3), of s' "length (geocoded s)"] g1(3) g2(3)
        have "geo_checked e (length (geocoded s)) s' (fst (card_location c'))" by simp
        with c' show ?thesis by auto
      qed
    qed
    with g1 g2 ih show ?thesis by (auto intro: grows_trans)
  qed
qed

lemma row_ok_mono:
  assumes "grows s0 s1" "row_ok e s1 s2 row" "grows s2 s3"
  shows "row_ok e s0 s3 row"
proof -
  from assms(2) obtain n doc c price where n: "length (requested s1) \<le> n"
      "n < length (requested s2)" "http_get e n (requested s2 ! n) = Inr doc"
      "c \<in> set (cards doc)" "row = row_of_card (get_property_type (requested s2 ! n)) c price"
      "geo_checked e (length (geocoded s1)) s2 (fst (card_location c))"
    unfolding row_ok_def by blast
  from assms(1) have l0: "length (requested s0) \<le> length (requested s1)"
      "length (geocoded s0) \<le> length (geocoded s1)"
    by (auto simp: grows_def dest: prefix_length_le)
  from assms(3) have p3: "prefix (requested s2) (requested s3)" "prefix (geocoded s2) (geocoded s3)"
    by (auto simp: grows_def)
  from p3(1) n(2) have r3: "n < length (requested s3)" "requested s3 ! n = requested s2 ! n"
    by (auto simp: prefix_nth dest: prefix_length_le)
  from geo_checked_mono[OF n(6) p3(2) l0(2)]
  have g: "geo_checked e (length (geocoded s0)) s3 (fst (card_location c))" .
  from n l0 r3 g show ?thesis unfolding row_ok_def
    by (intro exI[of _ n] exI[of _ doc] exI[of _ c] exI[of _ price]) auto
qed

lemma requests_get_grows: "requests_get e u s = (r, s') \<Longrightarrow> grows s s'"
  by (auto simp: grows_def requests_get_def)

lemma print_grows: "grows s (print l s)"
  by (simp add: grows_def)

lemma fetch_properties_rows:
  assumes "fetch_properties e url s = (r, s')"
  shows "grows s s' \<and> csv s' = csv s
         \<and> (\<exists>rows. r = Inr rows \<and> (\<forall>row \<in> set rows. row_ok e s s' row))"
proof -
  obtain resp s1 where rq: "requests_get e url s = (resp, s1)"
    by (cases "requests_get e url s")
  then have w1: "\<forall>doc. resp = Inr doc \<longrightarrow> http_get e (length (requested s)) url = Inr doc"
      "requested s1 = requested s @ [url]" "geocoded s1 = geocoded s" "csv s1 = csv s"
    using requests_get_world[of e url s resp s1] by blast+
  from rq have g1: "grows s s1" by (rule requests_get_grows)
  show ?thesis
  proof (cases resp)
    case (Inl ex)
    with assms rq have "r = Inr []"
        "s' = print (''Error fetching properties from '' @ url @ '': '' @ error_text ex) s1"
      by (simp_all add: fetch_properties_def)
    with g1 w1 show ?thesis by (auto simp: grows_def)
  next
    case (Inr soup)
    obtain r' rows s2 where cl: "card_loop e (get_property_type url) (cards soup) s1 = (r', rows, s2)"
      by (cases "card_loop e (get_property_type url) (cards soup) s1")
    from card_loop_rows[OF cl] have c: "grows s1 s2" "csv s2 = csv s1"
      "\<forall>row \<in> set rows. \<exists>c price. c \<in> set (cards soup)
          \<and> row = row_of_card (get_property_type url) c price
          \<and> geo_checked e (length (geocoded s1)) s2 (fst (card_location c))" by auto
    from assms rq Inr cl have r: "r = Inr rows" and s': "requested s' = requested s2"
        "geocoded s' = geocoded s2" "csv s' = csv s2"
      by (auto simp: fetch_properties_def split: sum.splits)
    from c(1) s' have g2: "grows s1 s'" by (simp add: grows_def)
    with g1 have g: "grows s s'" by (rule grows_trans)
    let ?n = "length (requested s)"
    from g2 w1(2) have nth: "?n < length (requested s')" "requested s' ! ?n = url"
      by (auto simp: grows_def prefix_def nth_append)
    have "\<forall>row \<in> set rows. row_ok e s s' row"
    proof
      fix row assume "row \<in> set rows"
      with c(3) obtain cd price where cd: "cd \<in> set (cards soup)"
          "row = row_of_card (get_property_type url) cd price"
          "geo_checked e (length (geocoded s1)) s2 (fst (card_location cd))" by blast
      from cd(3) s'(2) w1(3) have "geo_checked e (length (geocoded s)) s' (fst (card_location cd))"
        by (simp add: geo_checked_def)
      moreover from w1(1) Inr have "http_get e ?n url = Inr soup" by simp
      ultimately show "row_ok e s s' row" using cd nth unfolding row_ok_def
        by (intro exI[of _ ?n] exI[of _ soup] exI[of _ cd] exI[of _ price]) auto
    qed
    with g r s' c(2) w1(4) show ?thesis by simp
  qed
qed

lemma page_cycle_rows:
  assumes "page_cycle e b p s = (r, s')"
  shows "grows s s' \<and> (\<exists>rows. csv s' = csv s @ rows \<and> (\<forall>row \<in> set rows. row_ok e s s' row))"
proof -
  let ?url = "page_url b p"
  let ?s0 = "print (''Fetching data from '' @ ?url @ ''...'') s"
  have g0: "grows s ?s0" by (rule print_grows)
  obtain resp s1 where rq: "requests_get e ?url ?s0 = (resp, s1)"
    by (cases "requests_get e ?url ?s0")
  then have g1: "grows ?s0 s1" and c1: "csv s1 = csv s"
    by (auto dest: requests_get_grows requests_get_world)
  from g0 g1 have g01: "grows s s1" by (rule grows_trans)
  show ?thesis
  proof (cases resp)
    case (Inl ex)
    with assms rq have "s' = s1" by (simp add: page_cycle_def Let_def)
    with g01 c1 show ?thesis by simp
  next
    case (Inr soup)
    obtain fr s2 where fp: "fetch_properties e ?url s1 = (fr, s2)"
      by (cases "fetch_properties e ?url s1")
    from fetch_properties_rows[OF fp] obtain rows where f: "grows s1 s2" "csv s2 = csv s1"
      "fr = Inr rows" "\<forall>row \<in> set rows. row_ok e s1 s2 row" by blast
    from assms rq Inr fp f(3) have s': "s' = writerows rows s2"
      by (auto simp: page_cycle_def Let_def split: if_splits)
    then have g2: "grows s2 s'" by (simp add: grows_def)
    from g01 f(1) g2 have g: "grows s s'" by (blast intro: grows_trans)
    have "\<forall>row \<in> set rows. row_ok e s s' row"
      using f(4) row_ok_mono[OF g01 _ g2] by blast
    moreover from s' f(2) c1 have "csv s' = csv s @ rows" by simp
    ultimately show ?thesis using g by blast
  qed
qed

lemma rows_chain:
  assumes "grows s s1" "csv s1 = csv s @ rows1" "\<forall>row \<in> set rows1. row_ok e s s1 row"
    and "grows s1 s2" "csv s2 = csv s1 @ rows2" "\<forall>row \<in> set rows2. row_ok e s1 s2 row"
  shows "grows s s2 \<and> (\<exists>rows. csv s2 = csv s @ rows \<and> (\<forall>row \<in> set rows. row_ok e s s2 row))"
proof -
  from assms(1,4) have g: "grows s s2" by (rule grows_trans)
  have a: "\<forall>row \<in> set rows1. row_ok e s s2 row"
    using assms(3) row_ok_mono[OF grows_refl _ assms(4)] by blast
  have b: "\<forall>row \<in> set rows2. row_ok e s s2 row"
    using assms(6) row_ok_mono[OF assms(1) _ grows_refl] by blast
  from a b have "\<forall>row \<in> set (rows1 @ rows2). row_ok e s s2 row" by auto
  moreover from assms(2,5) have "csv s2 = csv s @ (rows1 @ rows2)" by simp
  ultimately show ?thesis using g by blast
qed

lemma paginate_rows:
  "paginate fuel e b p s = Some (r, s') \<Longrightarrow>
     grows s s' \<and> (\<exists>rows. csv s' = csv s @ rows \<and> (\<forall>row \<in> set rows. row_ok e s s' row))"
proof (induction fuel arbitrary: p s)
  case 0
  then show ?case by simp
next
  case (Suc fuel)
  obtain c s1 where pc: "page_cycle e b p s = (c, s1)" by (cases "page_cycle e b p s")
  from page_cycle_rows[OF pc] obtain rows1 where r1: "grows s s1" "csv s1 = csv s @ rows1"
      "\<forall>row \<in> set rows1. row_ok e s s1 row" by blast
  show ?case
  proof (cases "c = Inr True")
    case True
    with Suc.prems pc have "paginate fuel e b (p + 1) s1 = Some (r, s')" by simp
    from Suc.IH[OF this] obtain rows2 where r2: "grows s1 s'" "csv s' = csv s1 @ rows2"
      "\<forall>row \<in> set rows2. row_ok e s1 s' row" by blast
    from rows_chain[OF r1 r2] show ?thesis .
  next
    case False
    with Suc.prems pc have "s' = s1" by (auto split: sum.splits bool.splits)
    with r1 show ?thesis by blast
  qed
qed

lemma category_loop_rows:
  "category_loop fuel e urls s = Some (r, s') \<Longrightarrow>
     grows s s' \<and> (\<exists>rows. csv s' = csv s @ rows \<and> (\<forall>row \<in> set rows. row_ok e s s' row))"
proof (induction urls arbitrary: s)
  case Nil
  then show ?case by (simp add: grows_refl)
next
  case (Cons b urls)
  from Cons.prems obtain r1 s1 where pg: "paginate fuel e b 1 s = Some (r1, s1)"
    by (auto split: option.splits)
  from paginate_rows[OF pg] obtain rows1 where r1: "grows s s1" "csv s1 = csv s @ rows1"
      "\<forall>row \<in> set rows1. row_ok e s s1 row" by blast
  show ?case
  proof (cases r1)
    case (Inl ex)
    with Cons.prems pg have "s' = s1" by simp
    with r1 show ?thesis by blast
  next
    case (Inr u)
    with Cons.prems pg have "category_loop fuel e urls s1 = Some (r, s')" by simp
    from Cons.IH[OF this] obtain rows2 where r2: "grows s1 s'" "csv s' = csv s1 @ rows2"
      "\<forall>row \<in> set rows2. row_ok e s1 s' row" by blast
    from rows_chain[OF r1 r2] show ?thesis .
  qed
qed

lemma scrape_all_rows:
  assumes "scrape_all_properties fuel e urls s = Some (r, s')"
  shows "grows s s' \<and> (\<exists>rows. csv s' = header # rows \<and> (\<forall>row \<in> set rows. row_ok e s s' row))"
proof -
  let ?s0 = "writerows [header] (s\<lparr>csv := []\<rparr>)"
  from assms have "category_loop fuel e urls ?s0 = Some (r, s')"
    by (simp add: scrape_all_properties_def)
  from category_loop_rows[OF this] obtain rows where r: "grows ?s0 s'" "csv s' = csv ?s0 @ rows"
      "\<forall>row \<in> set rows. row_ok e ?s0 s' row" by blast
  from r(1) have "grows s s'" by (simp add: grows_def)
  moreover from r(2) have "csv s' = header # rows" by simp
  moreover from r(3) have "\<forall>row \<in> set rows. row_ok e s s' row"
    by (simp add: row_ok_def geo_checked_def)
  ultimately show ?thesis by blast
qed

section \<open>Running the sample site\<close>

lemmas sample_defs = sample_site_def sample_http_def sample_geocode_def sample_geodesic_def
  karen_card_def nyali_card_def thika_card_def unplaced_card_def sale_url_def start_def

lemmas run_defs = scrape_all_properties_def page_cycle_def page_url_def fetch_properties_def
  requests_get_def extract_price_def is_within_nairobi_area_def geolocator_geocode_def
  card_location_def details_url_of_def text_or_None_def parse_location_def split_first_comma_def
  strip_def isspace_def has_next_page_def writerows_def print_def get_property_type_def
  property_types_def NAIROBI_COORDS_def MAX_DISTANCE_def digit_char_def header_def Let_def

lemma sample_run:
  "scrape_all_properties 2 sample_site [sale_url] start = Some (Inr (), sample_end)"
  by (simp add: sample_end_def sample_defs run_defs numeral_2_eq_2)

section \<open>Claims about the pure functions\<close>

text \<open>
  Claim C7. \<open>get_property_type\<close> returns the pair of the first key of the table, in
  its order, that occurs in the URL as a substring, and \<open>(Unknown, Unknown)\<close> when
  none of the five keys occurs. It is a function of the URL alone.
\<close>

theorem get_property_type_first_match:
  "((\<forall>kv \<in> set property_types. \<not> sublist (fst kv) url)
      \<longrightarrow> get_property_type url = (''Unknown'', ''Unknown''))
   \<and> (i < length property_types \<and> sublist (fst (property_types ! i)) url
        \<and> (\<forall>j<i. \<not> sublist (fst (property_types ! j)) url)
      \<longrightarrow> get_property_type url = snd (property_types ! i))"
  unfolding get_property_type_def
  using items_loop_none[of property_types url] items_loop_first[of i property_types url]
  by (simp add: str_in_sublist)

theorem get_property_type_first_match_witness:
  "(list_all (\<lambda>kv. \<not> sublist (fst kv) ''https://www.buyrentkenya.com/land-for-sale'')
        property_types
      \<and> get_property_type ''https://www.buyrentkenya.com/land-for-sale'' = (''Unknown'', ''Unknown''))
   \<and> ((2::nat) < length property_types
        \<and> sublist ''houses-for-rent'' ''https://www.buyrentkenya.com/houses-for-rent''
        \<and> \<not> sublist ''houses-for-sale'' ''https://www.buyrentkenya.com/houses-for-rent''
        \<and> \<not> sublist ''flats-apartments-for-sale'' ''https://www.buyrentkenya.com/houses-for-rent''
        \<and> get_property_type ''https://www.buyrentkenya.com/houses-for-rent'' = (''House'', ''Rent''))"
proof -
  have h1: "\<forall>kv \<in> set property_types. \<not> sublist (fst kv) ''https://www.buyrentkenya.com/land-for-sale''"
    by (simp add: property_types_def str_in_sublist[symmetric])
  have h2: "(2::nat) < length property_types
        \<and> sublist (fst (property_types ! 2)) ''https://www.buyrentkenya.com/houses-for-rent''
        \<and> (\<forall>j<2. \<not> sublist (fst (property_types ! j)) ''https://www.buyrentkenya.com/houses-for-rent'')"
    by (simp add: property_types_def str_in_sublist[symmetric] less_Suc_eq numeral_2_eq_2)
  have v: "snd (property_types ! 2) = (''House'', ''Rent'')"
    by (simp add: property_types_def)
  have g: "sublist ''houses-for-rent'' ''https://www.buyrentkenya.com/houses-for-rent''
        \<and> \<not> sublist ''houses-for-sale'' ''https://www.buyrentkenya.com/houses-for-rent''
        \<and> \<not> sublist ''flats-apartments-for-sale'' ''https://www.buyrentkenya.com/houses-for-rent''"
    by (simp add: str_in_sublist[symmetric])
  from get_property_type_first_match[of "''https://www.buyrentkenya.com/land-for-sale''" 0] h1
  have c1: "get_property_type ''https://www.buyrentkenya.com/land-for-sale'' = (''Unknown'', ''Unknown'')"
    by blast
  from get_property_type_first_match[of "''https://www.buyrentkenya.com/houses-for-rent''" 2] h2
  have c2: "get_property_type ''https://www.buyrentkenya.com/houses-for-rent'' = snd (property_types ! 2)"
    by blast
  from h1 have h1': "list_all (\<lambda>kv. \<not> sublist (fst kv) ''https://www.buyrentkenya.com/land-for-sale'')
        property_types" by (simp only: list_all_iff)
  from h1' h2 g c1 c2 v show ?thesis by simp
qed

text \<open>
  Claim C8. A location text with a comma is split at the first one and both halves are
  stripped; a text without a comma gives its stripped self and the empty string.
  What \<open>strip\<close> removes, and that nothing is left to remove, is \<open>strip_decomp\<close> and
  \<open>strip_trimmed\<close>.
\<close>

theorem parse_location_split:
  "(CHR '','' \<notin> set a \<longrightarrow> parse_location (a @ CHR '','' # b) = (strip a, strip b))
   \<and> (CHR '','' \<notin> set t \<longrightarrow> parse_location t = (strip t, ''''))"
  by (simp add: parse_location_def split_first_comma_eq)

theorem parse_location_split_witness:
  "(CHR '','' \<notin> set ''Karen '' \<and>
      parse_location (''Karen '' @ CHR '','' # '' Nairobi West, Lane 4 '')
        = (''Karen'', ''Nairobi West, Lane 4''))
   \<and> (CHR '','' \<notin> set '' Kilimani'' \<and> parse_location '' Kilimani'' = (''Kilimani'', ''''))"
proof -
  have h1: "CHR '','' \<notin> set ''Karen ''" by simp
  have h2: "CHR '','' \<notin> set '' Kilimani''" by simp
  have s1: "strip ''Karen '' = ''Karen''" by (simp add: strip_def isspace_def)
  have s2: "strip '' Nairobi West, Lane 4 '' = ''Nairobi West, Lane 4''"
    by (simp add: strip_def isspace_def)
  have s3: "strip '' Kilimani'' = ''Kilimani''" by (simp add: strip_def isspace_def)
  from parse_location_split[of "''Karen ''" "'' Nairobi West, Lane 4 ''" "'' Kilimani''"] h1 h2
  have "parse_location (''Karen '' @ CHR '','' # '' Nairobi West, Lane 4 '')
          = (strip ''Karen '', strip '' Nairobi West, Lane 4 '')"
    and "parse_location '' Kilimani'' = (strip '' Kilimani'', '''')"
    by blast+
  with h1 h2 s1 s2 s3 show ?thesis by simp
qed


section \<open>Claims about the filter and the rows\<close>

text \<open>
  Claim C2. \<open>is_within_nairobi_area\<close> asks the geocoder about the location with
  \<open>, Kenya\<close> appended and returns true exactly when the geocoder gives a point and
  the distance from the fixed centre to it is at most 30, the distance 30 itself
  included. It never raises: the result is always a returned value, and it is false when
  the geocoder finds nothing or raises.
\<close>

theorem is_within_nairobi_area_decides:
  "fst (is_within_nairobi_area e location s) =
      Inr (\<exists>p d. geocode e (length (geocoded s)) (location @ '', Kenya'') = Inr (Some p)
             \<and> geodesic_km e NAIROBI_COORDS p = Inr d \<and> d \<le> 30)
   \<and> geocoded (snd (is_within_nairobi_area e location s)) = geocoded s @ [location @ '', Kenya'']
   \<and> (geocode e (length (geocoded s)) (location @ '', Kenya'') = Inr None
        \<or> (\<exists>ex. geocode e (length (geocoded s)) (location @ '', Kenya'') = Inl ex)
       \<longrightarrow> fst (is_within_nairobi_area e location s) = Inr False)"
proof -
  have a: "fst (is_within_nairobi_area e location s) =
      Inr (\<exists>p d. geocode e (length (geocoded s)) (location @ '', Kenya'') = Inr (Some p)
             \<and> geodesic_km e NAIROBI_COORDS p = Inr d \<and> d \<le> 30)"
    using is_within_result[of e location s] by (simp add: MAX_DISTANCE_def)
  have b: "geocoded (snd (is_within_nairobi_area e location s))
             = geocoded s @ [location @ '', Kenya'']"
    using is_within_world[of e location s] by (cases "is_within_nairobi_area e location s") simp
  have c: "geocode e (length (geocoded s)) (location @ '', Kenya'') = Inr None
        \<or> (\<exists>ex. geocode e (length (geocoded s)) (location @ '', Kenya'') = Inl ex)
       \<longrightarrow> fst (is_within_nairobi_area e location s) = Inr False"
    unfolding a by auto
  from a b c show ?thesis by blast
qed

theorem is_within_nairobi_area_decides_witness:
  "geocode sample_site (length (geocoded start)) (''Thika'' @ '', Kenya'') = Inr (Some (- 1, 37))
   \<and> geodesic_km sample_site NAIROBI_COORDS (- 1, 37) = Inr 30
   \<and> fst (is_within_nairobi_area sample_site ''Thika'' start) = Inr True
   \<and> geocode sample_site (length (geocoded start)) (''Timeout'' @ '', Kenya'')
        = Inl (GeocoderError ''timed out'')
   \<and> fst (is_within_nairobi_area sample_site ''Timeout'' start) = Inr False
   \<and> geocode sample_site (length (geocoded start)) (''Utopia'' @ '', Kenya'') = Inr None
   \<and> fst (is_within_nairobi_area sample_site ''Utopia'' start) = Inr False"
proof -
  have g1: "geocode sample_site (length (geocoded start)) (''Thika'' @ '', Kenya'')
              = Inr (Some (- 1, 37))"
    by (simp add: sample_defs)
  have d1: "geodesic_km sample_site NAIROBI_COORDS (- 1, 37) = Inr 30"
    by (simp add: sample_defs)
  have g2: "geocode sample_site (length (geocoded start)) (''Timeout'' @ '', Kenya'')
              = Inl (GeocoderError ''timed out'')"
    by (simp add: sample_defs)
  have g3: "geocode sample_site (length (geocoded start)) (''Utopia'' @ '', Kenya'') = Inr None"
    by (simp add: sample_defs)
  have ex: "\<exists>p d. geocode sample_site (length (geocoded start)) (''Thika'' @ '', Kenya'')
               = Inr (Some p)
             \<and> geodesic_km sample_site NAIROBI_COORDS p = Inr d \<and> d \<le> 30"
    using g1 d1 by (intro exI[of _ "(- 1, 37)"] exI[of _ 30]) simp
  from is_within_nairobi_area_decides[of sample_site "''Thika''" start] ex
  have r1: "fst (is_within_nairobi_area sample_site ''Thika'' start) = Inr True"
    by simp
  from is_within_nairobi_area_decides[of sample_site "''Timeout''" start] g2
  have r2: "fst (is_within_nairobi_area sample_site ''Timeout'' start) = Inr False"
    by blast
  from is_within_nairobi_area_decides[of sample_site "''Utopia''" start] g3
  have r3: "fst (is_within_nairobi_area sample_site ''Utopia'' start) = Inr False"
    by blast
  from g1 d1 r1 g2 r2 g3 r3 show ?thesis by blast
qed

text \<open>
  Claim C1. Every data row of the output file carries a location for which the
  geocoder was asked during the run and answered with a point at most 30 from the
  centre, so that the filter returned true for it. A card whose location resolves
  farther away leaves no row.
\<close>

theorem output_rows_passed_filter:
  assumes "scrape_all_properties fuel e urls s = Some (r, s')"
    and "row \<in> set (tl (csv s'))"
  shows "\<exists>n p d. length (geocoded s) \<le> n \<and> n < length (geocoded s')
           \<and> geocoded s' ! n = row ! 0 @ '', Kenya''
           \<and> geocode e n (row ! 0 @ '', Kenya'') = Inr (Some p)
           \<and> geodesic_km e NAIROBI_COORDS p = Inr d \<and> d \<le> 30
           \<and> (\<forall>t. length (geocoded t) = n
                  \<longrightarrow> fst (is_within_nairobi_area e (row ! 0) t) = Inr True)"
proof -
  from scrape_all_rows[OF assms(1)] obtain rows where rows: "csv s' = header # rows"
      "\<forall>row \<in> set rows. row_ok e s s' row" by blast
  with assms(2) have "row_ok e s s' row" by simp
  then obtain cd tags price where row: "row = row_of_card tags cd price"
      and chk: "geo_checked e (length (geocoded s)) s' (fst (card_location cd))"
    unfolding row_ok_def by blast
  from row have loc: "row ! 0 = fst (card_location cd)" by (simp add: row_of_card_def)
  from chk loc obtain n p d where n: "length (geocoded s) \<le> n" "n < length (geocoded s')"
      "geocoded s' ! n = row ! 0 @ '', Kenya''"
      "geocode e n (row ! 0 @ '', Kenya'') = Inr (Some p)"
      "geodesic_km e NAIROBI_COORDS p = Inr d" "d \<le> 30"
    unfolding geo_checked_def MAX_DISTANCE_def by auto
  have "\<forall>t. length (geocoded t) = n \<longrightarrow> fst (is_within_nairobi_area e (row ! 0) t) = Inr True"
  proof (intro allI impI)
    fix t :: world assume t: "length (geocoded t) = n"
    from n(4,5,6) t
    have "\<exists>p d. geocode e (length (geocoded t)) (row ! 0 @ '', Kenya'') = Inr (Some p)
            \<and> geodesic_km e NAIROBI_COORDS p = Inr d \<and> d \<le> MAX_DISTANCE"
      by (intro exI[of _ p] exI[of _ d]) (simp add: MAX_DISTANCE_def)
    with is_within_result[of e "row ! 0" t]
    show "fst (is_within_nairobi_area e (row ! 0) t) = Inr True" by simp
  qed
  with n show ?thesis by (intro exI[of _ n] exI[of _ p] exI[of _ d]) simp
qed

theorem output_rows_passed_filter_witness:
  "scrape_all_properties 2 sample_site [sale_url] start = Some (Inr (), sample_end)
   \<and> [''Thika'', [], ''None'', ''3'', ''2'', ''None'', ''House'', ''Sale'']
        \<in> set (tl (csv sample_end))
   \<and> (\<exists>n p d. length (geocoded start) \<le> n \<and> n < length (geocoded sample_end)
           \<and> geocoded sample_end ! n = ''Thika'' @ '', Kenya''
           \<and> geocode sample_site n (''Thika'' @ '', Kenya'') = Inr (Some p)
           \<and> geodesic_km sample_site NAIROBI_COORDS p = Inr d \<and> d \<le> 30
           \<and> (\<forall>t. length (geocoded t) = n
                  \<longrightarrow> fst (is_within_nairobi_area sample_site ''Thika'' t) = Inr True))"
proof -
  have m: "[''Thika'', [], ''None'', ''3'', ''2'', ''None'', ''House'', ''Sale'']
        \<in> set (tl (csv sample_end))"
    by (simp add: sample_end_def)
  from output_rows_passed_filter[OF sample_run m]
  have "\<exists>n p d. length (geocoded start) \<le> n \<and> n < length (geocoded sample_end)
           \<and> geocoded sample_end ! n = ''Thika'' @ '', Kenya''
           \<and> geocode sample_site n (''Thika'' @ '', Kenya'') = Inr (Some p)
           \<and> geodesic_km sample_site NAIROBI_COORDS p = Inr d \<and> d \<le> 30
           \<and> (\<forall>t. length (geocoded t) = n
                  \<longrightarrow> fst (is_within_nairobi_area sample_site ''Thika'' t) = Inr True)"
    by simp
  with sample_run m show ?thesis by blast
qed


section \<open>Facts about locations and pagination\<close>

lemma card_location_fst:
  "fst (card_location c) =
     (case location_node c of None \<Rightarrow> ''None''
      | Some t \<Rightarrow> strip (takeWhile (\<lambda>x. x \<noteq> CHR '','') t))"
  by (simp add: card_location_def parse_location_fst split: option.splits)

lemma card_location_shape:
  "CHR '','' \<notin> set (fst (card_location c))
   \<and> (fst (card_location c) = []
        \<or> \<not> isspace (hd (fst (card_location c))) \<and> \<not> isspace (last (fst (card_location c))))"
proof (cases "location_node c")
  case None
  then show ?thesis by (simp add: card_location_fst isspace_def)
next
  case (Some t)
  then have l: "fst (card_location c) = strip (takeWhile (\<lambda>x. x \<noteq> CHR '','') t)"
    by (simp add: card_location_fst)
  show ?thesis unfolding l
    using strip_takeWhile_no_comma[of t] strip_trimmed[of "takeWhile (\<lambda>x. x \<noteq> CHR '','') t"]
    by blast
qed

lemma page_cycle_cases:
  assumes "page_cycle e b p s = (r, s1)"
  obtains (crash) ex where
      "fst (requests_get e (page_url b p)
              (print (''Fetching data from '' @ page_url b p @ ''...'') s)) = Inl ex"
      "r = Inl ex"
      "s1 = snd (requests_get e (page_url b p)
                   (print (''Fetching data from '' @ page_url b p @ ''...'') s))"
  | (fetched) soup rows s2 where
      "http_get e (length (requested s)) (page_url b p) = Inr soup"
      "fetch_properties e (page_url b p)
         (snd (requests_get e (page_url b p)
                 (print (''Fetching data from '' @ page_url b p @ ''...'') s))) = (Inr rows, s2)"
      "s1 = writerows rows s2" "csv s2 = csv s"
      "r = Inr (rows \<noteq> [] \<and> has_next_page soup)"
      "fst (requests_get e (page_url b p)
              (print (''Fetching data from '' @ page_url b p @ ''...'') s)) = Inr soup"
proof -
  let ?url = "page_url b p"
  let ?s0 = "print (''Fetching data from '' @ ?url @ ''...'') s"
  obtain resp t where rq: "requests_get e ?url ?s0 = (resp, t)" by (cases "requests_get e ?url ?s0")
  from requests_get_world[OF rq]
  have resp: "\<forall>doc. resp = Inr doc \<longrightarrow> http_get e (length (requested s)) ?url = Inr doc"
    and ct: "csv t = csv s" by simp_all
  show thesis
  proof (cases resp)
    case (Inl ex)
    with rq have h: "fst (requests_get e ?url ?s0) = Inl ex" by simp
    from assms rq Inl have "r = Inl ex" "s1 = snd (requests_get e ?url ?s0)"
      by (simp_all add: page_cycle_def Let_def)
    with h show thesis by (intro crash[of ex])
  next
    case (Inr soup)
    obtain fr s2 where fp: "fetch_properties e ?url t = (fr, s2)"
      by (cases "fetch_properties e ?url t")
    from fetch_properties_rows[OF fp] obtain rows where f: "fr = Inr rows" "csv s2 = csv t" by blast
    from assms rq Inr fp f(1) have "s1 = writerows rows s2" "r = Inr (rows \<noteq> [] \<and> has_next_page soup)"
      by (auto simp: page_cycle_def Let_def split: if_splits)
    moreover from resp Inr have "http_get e (length (requested s)) ?url = Inr soup" by simp
    moreover from fp rq f(1) have "fetch_properties e ?url (snd (requests_get e ?url ?s0)) = (Inr rows, s2)"
      by simp
    moreover from f(2) ct have "csv s2 = csv s" by simp
    moreover from rq Inr have "fst (requests_get e ?url ?s0) = Inr soup" by simp
    ultimately show thesis by (intro fetched[of soup rows s2])
  qed
qed

lemma page_cycle_first_request:
  "requested (snd (page_cycle e b p s)) ! length (requested s) = page_url b p"
proof -
  obtain r s1 where pc: "page_cycle e b p s = (r, s1)" by (cases "page_cycle e b p s")
  let ?s0 = "print (''Fetching data from '' @ page_url b p @ ''...'') s"
  let ?t = "snd (requests_get e (page_url b p) ?s0)"
  have rt: "requested ?t = requested s @ [page_url b p]" by (simp add: requests_get_def)
  have "prefix (requested ?t) (requested s1)"
  proof (cases "fst (requests_get e (page_url b p) ?s0)")
    case (Inl ex)
    with pc have "s1 = ?t" by (simp add: page_cycle_def Let_def case_prod_unfold)
    then show ?thesis by simp
  next
    case (Inr soup)
    obtain fr s2 where fp: "fetch_properties e (page_url b p) ?t = (fr, s2)"
      by (cases "fetch_properties e (page_url b p) ?t")
    from fetch_properties_rows[OF fp] obtain rows where f: "fr = Inr rows" "grows ?t s2" by blast
    from pc Inr fp f(1) have "s1 = writerows rows s2"
      by (auto simp: page_cycle_def Let_def case_prod_unfold split: if_splits)
    with f(2) show ?thesis by (simp add: grows_def)
  qed
  with rt have "requested s1 ! length (requested s) = page_url b p"
    by (auto simp: prefix_def nth_append)
  with pc show ?thesis by simp
qed

lemma paginate_terminates:
  "\<forall>t. fst (page_cycle e b n t) \<noteq> Inr True \<Longrightarrow> p \<le> n \<Longrightarrow> n - p < fuel
     \<Longrightarrow> \<exists>res. paginate fuel e b p s = Some res"
proof (induction fuel arbitrary: p s)
  case 0
  then show ?case by simp
next
  case (Suc fuel)
  obtain c s1 where pc: "page_cycle e b p s = (c, s1)" by (cases "page_cycle e b p s")
  show ?case
  proof (cases "c = Inr True")
    case True
    with pc Suc.prems(1) have "p \<noteq> n" by (metis fst_conv)
    with Suc.prems have "p + 1 \<le> n" "n - (p + 1) < fuel" by auto
    from Suc.IH[OF Suc.prems(1) this] obtain res where "paginate fuel e b (p + 1) s1 = Some res"
      by blast
    with pc True show ?thesis by simp
  next
    case False
    with pc show ?thesis by (auto split: sum.splits bool.splits)
  qed
qed

lemma fetch_properties_no_cards:
  assumes "\<forall>m soup. http_get e m u = Inr soup \<longrightarrow> cards soup = []"
  shows "fst (fetch_properties e u t) = Inr []"
proof -
  obtain resp t1 where rq: "requests_get e u t = (resp, t1)" by (cases "requests_get e u t")
  show ?thesis
  proof (cases resp)
    case (Inl ex)
    with rq show ?thesis by (simp add: fetch_properties_def)
  next
    case (Inr soup)
    with requests_get_world[OF rq] have "http_get e (length (requested t)) u = Inr soup" by simp
    with assms have "cards soup = []" by blast
    with rq Inr show ?thesis by (simp add: fetch_properties_def)
  qed
qed

lemma page_cycle_no_cards:
  assumes "\<forall>m soup. http_get e m (page_url b n) = Inr soup \<longrightarrow> cards soup = []"
  shows "fst (page_cycle e b n t) \<noteq> Inr True"
proof -
  obtain r s1 where pc: "page_cycle e b n t = (r, s1)" by (cases "page_cycle e b n t")
  from pc have "r \<noteq> Inr True"
  proof (cases rule: page_cycle_cases)
    case (crash ex)
    then show ?thesis by simp
  next
    case (fetched soup rows s2)
    from fetched(2) fetch_properties_no_cards[OF assms] have "rows = []"
      by (metis fst_conv sum.inject(2))
    with fetched(5) show ?thesis by simp
  qed
  with pc show ?thesis by simp
qed

lemma page_cycle_no_indicator:
  assumes "\<forall>m soup. http_get e m (page_url b n) = Inr soup \<longrightarrow> \<not> has_next_page soup"
  shows "fst (page_cycle e b n t) \<noteq> Inr True"
proof -
  obtain r s1 where pc: "page_cycle e b n t = (r, s1)" by (cases "page_cycle e b n t")
  from pc have "r \<noteq> Inr True"
  proof (cases rule: page_cycle_cases)
    case (crash ex)
    then show ?thesis by simp
  next
    case (fetched soup rows s2)
    from fetched(1) assms have "\<not> has_next_page soup" by blast
    with fetched(5) show ?thesis by simp
  qed
  with pc show ?thesis by simp
qed

lemma digit_char_val: "d < 10 \<Longrightarrow> (of_char (digit_char d) :: nat) = 48 + d"
proof -
  assume "d < 10"
  then have "d \<in> {0, 1, 2, 3, 4, 5, 6, 7, 8, 9}" by auto
  then show ?thesis by (auto simp: digit_char_def)
qed

lemma dec_value_snoc: "dec_value (xs @ [c]) = 10 * dec_value xs + ((of_char c :: nat) - 48)"
  by (simp add: dec_value_def)

lemma dec_value_str_nat: "dec_value (str_nat n) = n"
proof (induction n rule: str_nat.induct)
  case (1 n)
  show ?case
  proof (cases "n < 10")
    case True
    then have "str_nat n = [digit_char n]" by simp
    with True show ?thesis by (simp add: dec_value_def digit_char_val)
  next
    case False
    then have s: "str_nat n = str_nat (n div 10) @ [digit_char (n mod 10)]" by simp
    from 1 False have ih: "dec_value (str_nat (n div 10)) = n div 10" by simp
    have "n mod 10 < 10" by simp
    then have "(of_char (digit_char (n mod 10)) :: nat) - 48 = n mod 10"
      by (simp add: digit_char_val)
    with ih show ?thesis unfolding s dec_value_snoc by simp
  qed
qed

lemma pair_fst_eq: "fst x = a \<Longrightarrow> x = (a, snd x)"
  by (cases x) simp

section \<open>Claims about pagination and the output file\<close>

text \<open>
  Claim C6. The pass for page 1 requests the base URL as it is, the pass for a later
  page \<open>n\<close> requests it with \<open>?page=n\<close> appended. \<open>fetch_properties\<close> always returns
  its rows. A pass whose own request succeeds writes the rows that \<open>fetch_properties\<close>
  yielded and ends the category exactly when there are none or the page it fetched
  lacks the pagination container or the forward icon; otherwise the loop goes on with
  the next page. A pass whose own request raises leaves the loop with that exception.
  If some page \<open>n\<close> of the category never lets a pass go on, whenever it is fetched (as
  when it always comes without cards, or always without the indicator), the loop of
  the category ends within \<open>n\<close> passes.
\<close>

theorem pagination_urls_and_termination:
  "page_url b 1 = b
   \<and> (1 < p \<longrightarrow> page_url b p = b @ ''?page='' @ str_nat p \<and> dec_value (str_nat p) = p)
   \<and> requested (snd (page_cycle e b p s)) ! length (requested s) = page_url b p
   \<and> (\<exists>rows' s2'. fetch_properties e (page_url b p) t = (Inr rows', s2'))
   \<and> (fst (requests_get e (page_url b p)
               (print (''Fetching data from '' @ page_url b p @ ''...'') s)) = Inr soup
        \<and> fetch_properties e (page_url b p)
             (snd (requests_get e (page_url b p)
                     (print (''Fetching data from '' @ page_url b p @ ''...'') s)))
            = (Inr rows, s2)
        \<longrightarrow>
          page_cycle e b p s
            = (Inr (rows \<noteq> [] \<and> pager_div soup \<and> forward_icon soup), writerows rows s2)
          \<and> paginate (Suc fuel) e b p s
              = (if rows = [] \<or> \<not> (pager_div soup \<and> forward_icon soup)
                 then Some (Inr (), writerows rows s2)
                 else paginate fuel e b (p + 1) (writerows rows s2)))
   \<and> (fst (requests_get e (page_url b p)
               (print (''Fetching data from '' @ page_url b p @ ''...'') s)) = Inl ex
        \<longrightarrow>
          paginate (Suc fuel) e b p s
            = Some (Inl ex, snd (requests_get e (page_url b p)
                                   (print (''Fetching data from '' @ page_url b p @ ''...'') s))))
   \<and> (((\<forall>t. fst (page_cycle e b n t) \<noteq> Inr True)
          \<or> (\<forall>m soup. http_get e m (page_url b n) = Inr soup \<longrightarrow> cards soup = [])
          \<or> (\<forall>m soup. http_get e m (page_url b n) = Inr soup
                 \<longrightarrow> \<not> (pager_div soup \<and> forward_icon soup)))
        \<and> 1 \<le> n \<and> n \<le> k
        \<longrightarrow> (\<exists>res. paginate k e b 1 s = Some res))"
proof -
  let ?url = "page_url b p"
  let ?s0 = "print (''Fetching data from '' @ ?url @ ''...'') s"
  have a: "page_url b 1 = b" by (simp add: page_url_def)
  have b: "1 < p \<longrightarrow> page_url b p = b @ ''?page='' @ str_nat p \<and> dec_value (str_nat p) = p"
    by (simp add: page_url_def dec_value_str_nat del: str_nat.simps)
  have c: "requested (snd (page_cycle e b p s)) ! length (requested s) = page_url b p"
    by (rule page_cycle_first_request)
  have f: "\<exists>rows' s2'. fetch_properties e (page_url b p) t = (Inr rows', s2')"
  proof -
    obtain fr ft where fp: "fetch_properties e ?url t = (fr, ft)"
      by (cases "fetch_properties e ?url t")
    from fetch_properties_rows[OF fp] obtain rows' where "fr = Inr rows'" by blast
    with fp show ?thesis by blast
  qed
  have d: "fst (requests_get e ?url ?s0) = Inr soup
        \<and> fetch_properties e ?url (snd (requests_get e ?url ?s0)) = (Inr rows, s2)
        \<longrightarrow>
          page_cycle e b p s
            = (Inr (rows \<noteq> [] \<and> pager_div soup \<and> forward_icon soup), writerows rows s2)
          \<and> paginate (Suc fuel) e b p s
              = (if rows = [] \<or> \<not> (pager_div soup \<and> forward_icon soup)
                 then Some (Inr (), writerows rows s2)
                 else paginate fuel e b (p + 1) (writerows rows s2))"
  proof
    assume h: "fst (requests_get e ?url ?s0) = Inr soup
        \<and> fetch_properties e ?url (snd (requests_get e ?url ?s0)) = (Inr rows, s2)"
    obtain resp t1 where rq: "requests_get e ?url ?s0 = (resp, t1)"
      by (cases "requests_get e ?url ?s0")
    with h have resp: "resp = Inr soup" and fp: "fetch_properties e ?url t1 = (Inr rows, s2)"
      by simp_all
    have pc: "page_cycle e b p s
            = (Inr (rows \<noteq> [] \<and> pager_div soup \<and> forward_icon soup), writerows rows s2)"
      using rq resp fp by (auto simp: page_cycle_def Let_def has_next_page_def)
    have "paginate (Suc fuel) e b p s
              = (if rows = [] \<or> \<not> (pager_div soup \<and> forward_icon soup)
                 then Some (Inr (), writerows rows s2)
                 else paginate fuel e b (p + 1) (writerows rows s2))"
    proof (cases "rows \<noteq> [] \<and> pager_div soup \<and> forward_icon soup")
      case True
      with pc have "page_cycle e b p s = (Inr True, writerows rows s2)" by simp
      with True show ?thesis by simp
    next
      case False
      with pc have "page_cycle e b p s = (Inr False, writerows rows s2)" by simp
      with False show ?thesis by auto
    qed
    with pc show "page_cycle e b p s
            = (Inr (rows \<noteq> [] \<and> pager_div soup \<and> forward_icon soup), writerows rows s2)
          \<and> paginate (Suc fuel) e b p s
              = (if rows = [] \<or> \<not> (pager_div soup \<and> forward_icon soup)
                 then Some (Inr (), writerows rows s2)
                 else paginate fuel e b (p + 1) (writerows rows s2))"
      by (rule conjI)
  qed
  have g: "fst (requests_get e ?url ?s0) = Inl ex
        \<longrightarrow> paginate (Suc fuel) e b p s = Some (Inl ex, snd (requests_get e ?url ?s0))"
  proof
    assume "fst (requests_get e ?url ?s0) = Inl ex"
    moreover obtain resp t1 where rq: "requests_get e ?url ?s0 = (resp, t1)"
      by (cases "requests_get e ?url ?s0")
    ultimately have "resp = Inl ex" by simp
    with rq have "page_cycle e b p s = (Inl ex, snd (requests_get e ?url ?s0))"
      by (simp add: page_cycle_def Let_def)
    then show "paginate (Suc fuel) e b p s = Some (Inl ex, snd (requests_get e ?url ?s0))"
      by simp
  qed
  have t: "((\<forall>t. fst (page_cycle e b n t) \<noteq> Inr True)
          \<or> (\<forall>m soup. http_get e m (page_url b n) = Inr soup \<longrightarrow> cards soup = [])
          \<or> (\<forall>m soup. http_get e m (page_url b n) = Inr soup
                 \<longrightarrow> \<not> (pager_div soup \<and> forward_icon soup)))
        \<and> 1 \<le> n \<and> n \<le> k
        \<longrightarrow> (\<exists>res. paginate k e b 1 s = Some res)"
  proof
    assume h: "((\<forall>t. fst (page_cycle e b n t) \<noteq> Inr True)
          \<or> (\<forall>m soup. http_get e m (page_url b n) = Inr soup \<longrightarrow> cards soup = [])
          \<or> (\<forall>m soup. http_get e m (page_url b n) = Inr soup
                 \<longrightarrow> \<not> (pager_div soup \<and> forward_icon soup)))
        \<and> 1 \<le> n \<and> n \<le> k"
    then have "\<forall>t. fst (page_cycle e b n t) \<noteq> Inr True"
      using page_cycle_no_cards[of e b n] page_cycle_no_indicator[of e b n]
      unfolding has_next_page_def by blast
    moreover from h have "1 \<le> n" "n - 1 < k" by auto
    ultimately show "\<exists>res. paginate k e b 1 s = Some res"
      by (rule paginate_terminates)
  qed
  show ?thesis by (rule conjI[OF a conjI[OF b conjI[OF c conjI[OF f conjI[OF d conjI[OF g t]]]]]])
qed

theorem pagination_urls_and_termination_witness:
  "fst (requests_get sample_site (page_url sale_url 1)
          (print (''Fetching data from '' @ page_url sale_url 1 @ ''...'') start))
     = Inr \<lparr>cards = [karen_card, nyali_card, thika_card], pager_div = True,
            forward_icon = True, price_span = None\<rparr>
   \<and> fst (fetch_properties sample_site (page_url sale_url 1)
            (snd (requests_get sample_site (page_url sale_url 1)
                    (print (''Fetching data from '' @ page_url sale_url 1 @ ''...'') start))))
     = Inr [[''Karen'', ''Nairobi'', ''450 m2'', ''4'', ''None'', ''KSh 45,000,000'',
             ''House'', ''Sale''],
            [''Thika'', [], ''None'', ''3'', ''2'', ''None'', ''House'', ''Sale'']]
   \<and> fst (page_cycle sample_site sale_url 1 start) = Inr True
   \<and> fst (page_cycle sample_site ''https://www.buyrentkenya.com/houses-for-rent'' 1 start)
       = Inr False
   \<and> fst (page_cycle sample_site ''https://www.buyrentkenya.com/bedsitters-for-rent'' 1 start)
       = Inr False
   \<and> fst (page_cycle sample_site sale_url 2 start) = Inr False
   \<and> fst (page_cycle sample_site ''https://www.buyrentkenya.com/land'' 1 start)
       = Inl (RequestException ''no response'')
   \<and> (1::nat) < 2 \<and> page_url sale_url 2 = sale_url @ ''?page=2''
   \<and> (\<forall>t. fst (page_cycle sample_site sale_url 2 t) \<noteq> Inr True)
   \<and> (1::nat) \<le> 2 \<and> (2::nat) \<le> 2
   \<and> (\<exists>res. paginate 2 sample_site sale_url 1 start = Some res)
   \<and> map_option (\<lambda>res. (fst res, requested (snd res)))
         (paginate 2 sample_site sale_url 1 start)
       = Some (Inr (), [''https://www.buyrentkenya.com/houses-for-sale'',
                        ''https://www.buyrentkenya.com/houses-for-sale'',
                        ''https://www.buyrentkenya.com/listings/karen-villa'',
                        ''None'',
                        ''https://www.buyrentkenya.com/houses-for-sale?page=2'',
                        ''https://www.buyrentkenya.com/houses-for-sale?page=2''])"
proof -
  let ?doc = "\<lparr>cards = [karen_card, nyali_card, thika_card], pager_div = True,
            forward_icon = True, price_span = None\<rparr>"
  let ?rows = "[[''Karen'', ''Nairobi'', ''450 m2'', ''4'', ''None'', ''KSh 45,000,000'',
             ''House'', ''Sale''],
            [''Thika'', [], ''None'', ''3'', ''2'', ''None'', ''House'', ''Sale'']]"
  let ?t = "snd (requests_get sample_site (page_url sale_url 1)
                    (print (''Fetching data from '' @ page_url sale_url 1 @ ''...'') start))"
  have rq: "fst (requests_get sample_site (page_url sale_url 1)
          (print (''Fetching data from '' @ page_url sale_url 1 @ ''...'') start)) = Inr ?doc"
    by (simp add: sample_defs run_defs)
  have fr: "fst (fetch_properties sample_site (page_url sale_url 1) ?t) = Inr ?rows"
    by (simp add: sample_defs run_defs)
  then have fp: "fetch_properties sample_site (page_url sale_url 1) ?t
      = (Inr ?rows, snd (fetch_properties sample_site (page_url sale_url 1) ?t))"
    by (rule pair_fst_eq)
  note th1 = pagination_urls_and_termination[where b = sale_url and p = 1 and e = sample_site
      and s = start and soup = ?doc and rows = ?rows
      and ?s2.0 = "snd (fetch_properties sample_site (page_url sale_url 1) ?t)"]
  from th1 rq fp have "page_cycle sample_site sale_url 1 start
      = (Inr (?rows \<noteq> [] \<and> pager_div ?doc \<and> forward_icon ?doc),
         writerows ?rows (snd (fetch_properties sample_site (page_url sale_url 1) ?t)))"
    by blast
  then have c1: "fst (page_cycle sample_site sale_url 1 start) = Inr True" by simp
  have c2: "fst (page_cycle sample_site ''https://www.buyrentkenya.com/houses-for-rent'' 1 start)
       = Inr False"
    by (simp add: sample_defs run_defs)
  have c3: "fst (page_cycle sample_site ''https://www.buyrentkenya.com/bedsitters-for-rent'' 1 start)
       = Inr False"
    by (simp add: sample_defs run_defs)
  have c4: "fst (page_cycle sample_site sale_url 2 start) = Inr False"
    by (simp add: sample_defs run_defs)
  have c5: "fst (page_cycle sample_site ''https://www.buyrentkenya.com/land'' 1 start)
       = Inl (RequestException ''no response'')"
    by (simp add: sample_defs run_defs)
  have h1: "(1::nat) < 2" by simp
  have sn: "str_nat 2 = ''2''" by (simp add: digit_char_def)
  have h3: "\<forall>t. fst (page_cycle sample_site sale_url 2 t) \<noteq> Inr True"
    by (simp add: sample_defs run_defs)
  have le: "1 \<le> (2::nat)" "(2::nat) \<le> 2" by simp_all
  note th2 = pagination_urls_and_termination[where b = sale_url and p = 2 and e = sample_site
      and s = start and n = 2 and k = 2]
  from th2 have "1 < (2::nat) \<longrightarrow> page_url sale_url 2 = sale_url @ ''?page='' @ str_nat 2
            \<and> dec_value (str_nat 2) = 2"
    by (rule conjunct1[OF conjunct2])
  with h1 sn have c6: "page_url sale_url 2 = sale_url @ ''?page=2''" by simp
  from th2 have "((\<forall>t. fst (page_cycle sample_site sale_url 2 t) \<noteq> Inr True)
          \<or> (\<forall>m soup. http_get sample_site m (page_url sale_url 2) = Inr soup \<longrightarrow> cards soup = [])
          \<or> (\<forall>m soup. http_get sample_site m (page_url sale_url 2) = Inr soup
                 \<longrightarrow> \<not> (pager_div soup \<and> forward_icon soup)))
        \<and> 1 \<le> (2::nat) \<and> (2::nat) \<le> 2
        \<longrightarrow> (\<exists>res. paginate 2 sample_site sale_url 1 start = Some res)"
    by (rule conjunct2[OF conjunct2[OF conjunct2[OF conjunct2[OF conjunct2[OF conjunct2]]]]])
  with h3 le have c7: "\<exists>res. paginate 2 sample_site sale_url 1 start = Some res" by blast
  have c8: "map_option (\<lambda>res. (fst res, requested (snd res)))
         (paginate 2 sample_site sale_url 1 start)
       = Some (Inr (), [''https://www.buyrentkenya.com/houses-for-sale'',
                        ''https://www.buyrentkenya.com/houses-for-sale'',
                        ''https://www.buyrentkenya.com/listings/karen-villa'',
                        ''None'',
                        ''https://www.buyrentkenya.com/houses-for-sale?page=2'',
                        ''https://www.buyrentkenya.com/houses-for-sale?page=2''])"
    by (simp add: sample_defs run_defs numeral_2_eq_2)
  from rq fr c1 c2 c3 c4 c5 h1 c6 h3 le c7 c8 show ?thesis by blast
qed

text \<open>
  Claim C9. Whenever the run ends, the file holds the header row, with the eight
  column names \<open>Location\<close>, \<open>Other Location Details\<close>, \<open>Size\<close>, \<open>Bedrooms\<close>,
  \<open>Bathrooms\<close>, \<open>Price\<close>, \<open>Property Type\<close>, \<open>Purchase Type\<close>, once and first,
  followed by data rows of eight fields in that order, each built from a card of a
  fetched page. Each pass appends exactly the rows that \<open>fetch_properties\<close> yielded,
  one per record and in their order. The rows are lists of fields; how the CSV writer
  renders delimiters and quotes is the writer's business.
\<close>

theorem csv_header_then_rows:
  "(scrape_all_properties fuel e urls s = Some (r, s') \<longrightarrow>
      (\<exists>rows. csv s' = [''Location'', ''Other Location Details'', ''Size'', ''Bedrooms'',
                         ''Bathrooms'', ''Price'', ''Property Type'', ''Purchase Type''] # rows
         \<and> (\<forall>row \<in> set rows. \<exists>n doc cd price.
               n < length (requested s') \<and> http_get e n (requested s' ! n) = Inr doc
               \<and> cd \<in> set (cards doc)
               \<and> row = [fst (card_location cd), snd (card_location cd),
                        text_or_None (area_node cd), text_or_None (beds_node cd),
                        text_or_None (baths_node cd), price,
                        fst (get_property_type (requested s' ! n)),
                        snd (get_property_type (requested s' ! n))])))
   \<and> (page_cycle e b p t = (Inr c, t') \<longrightarrow>
        (\<exists>rows. fst (fetch_properties e (page_url b p)
                       (snd (requests_get e (page_url b p)
                               (print (''Fetching data from '' @ page_url b p @ ''...'') t))))
                  = Inr rows
               \<and> csv t' = csv t @ rows))"
proof -
  have a: "scrape_all_properties fuel e urls s = Some (r, s') \<longrightarrow>
      (\<exists>rows. csv s' = [''Location'', ''Other Location Details'', ''Size'', ''Bedrooms'',
                         ''Bathrooms'', ''Price'', ''Property Type'', ''Purchase Type''] # rows
         \<and> (\<forall>row \<in> set rows. \<exists>n doc cd price.
               n < length (requested s') \<and> http_get e n (requested s' ! n) = Inr doc
               \<and> cd \<in> set (cards doc)
               \<and> row = [fst (card_location cd), snd (card_location cd),
                        text_or_None (area_node cd), text_or_None (beds_node cd),
                        text_or_None (baths_node cd), price,
                        fst (get_property_type (requested s' ! n)),
                        snd (get_property_type (requested s' ! n))]))"
  proof
    assume "scrape_all_properties fuel e urls s = Some (r, s')"
    from scrape_all_rows[OF this] obtain rows where rows: "csv s' = header # rows"
      "\<forall>row \<in> set rows. row_ok e s s' row" by blast
    have "\<forall>row \<in> set rows. \<exists>n doc cd price.
               n < length (requested s') \<and> http_get e n (requested s' ! n) = Inr doc
               \<and> cd \<in> set (cards doc)
               \<and> row = [fst (card_location cd), snd (card_location cd),
                        text_or_None (area_node cd), text_or_None (beds_node cd),
                        text_or_None (baths_node cd), price,
                        fst (get_property_type (requested s' ! n)),
                        snd (get_property_type (requested s' ! n))]"
    proof
      fix row assume "row \<in> set rows"
      with rows(2) have "row_ok e s s' row" by blast
      then obtain n doc cd price where "n < length (requested s')"
          "http_get e n (requested s' ! n) = Inr doc" "cd \<in> set (cards doc)"
          "row = row_of_card (get_property_type (requested s' ! n)) cd price"
        unfolding row_ok_def by blast
      then show "\<exists>n doc cd price.
               n < length (requested s') \<and> http_get e n (requested s' ! n) = Inr doc
               \<and> cd \<in> set (cards doc)
               \<and> row = [fst (card_location cd), snd (card_location cd),
                        text_or_None (area_node cd), text_or_None (beds_node cd),
                        text_or_None (baths_node cd), price,
                        fst (get_property_type (requested s' ! n)),
                        snd (get_property_type (requested s' ! n))]"
        unfolding row_of_card_def by (intro exI[of _ n] exI[of _ doc] exI[of _ cd] exI[of _ price]) simp
    qed
    with rows(1) show "\<exists>rows. csv s' = [''Location'', ''Other Location Details'', ''Size'', ''Bedrooms'',
                         ''Bathrooms'', ''Price'', ''Property Type'', ''Purchase Type''] # rows
         \<and> (\<forall>row \<in> set rows. \<exists>n doc cd price.
               n < length (requested s') \<and> http_get e n (requested s' ! n) = Inr doc
               \<and> cd \<in> set (cards doc)
               \<and> row = [fst (card_location cd), snd (card_location cd),
                        text_or_None (area_node cd), text_or_None (beds_node cd),
                        text_or_None (baths_node cd), price,
                        fst (get_property_type (requested s' ! n)),
                        snd (get_property_type (requested s' ! n))])"
      unfolding header_def by (intro exI[of _ rows]) simp
  qed
  have b: "page_cycle e b p t = (Inr c, t') \<longrightarrow>
        (\<exists>rows. fst (fetch_properties e (page_url b p)
                       (snd (requests_get e (page_url b p)
                               (print (''Fetching data from '' @ page_url b p @ ''...'') t))))
                  = Inr rows
               \<and> csv t' = csv t @ rows)"
  proof
    assume "page_cycle e b p t = (Inr c, t')"
    then show "\<exists>rows. fst (fetch_properties e (page_url b p)
                       (snd (requests_get e (page_url b p)
                               (print (''Fetching data from '' @ page_url b p @ ''...'') t))))
                  = Inr rows
               \<and> csv t' = csv t @ rows"
    proof (cases rule: page_cycle_cases)
      case (crash ex)
      then show ?thesis by simp
    next
      case (fetched soup rows s2)
      then show ?thesis by (intro exI[of _ rows]) simp
    qed
  qed
  from a b show ?thesis by (rule conjI)
qed


theorem csv_header_then_rows_witness:
  "scrape_all_properties 2 sample_site [sale_url] start = Some (Inr (), sample_end)
   \<and> (\<exists>rows. csv sample_end = [''Location'', ''Other Location Details'', ''Size'', ''Bedrooms'',
                         ''Bathrooms'', ''Price'', ''Property Type'', ''Purchase Type''] # rows
         \<and> (\<forall>row \<in> set rows. \<exists>n doc cd price.
               n < length (requested sample_end)
               \<and> http_get sample_site n (requested sample_end ! n) = Inr doc
               \<and> cd \<in> set (cards doc)
               \<and> row = [fst (card_location cd), snd (card_location cd),
                        text_or_None (area_node cd), text_or_None (beds_node cd),
                        text_or_None (baths_node cd), price,
                        fst (get_property_type (requested sample_end ! n)),
                        snd (get_property_type (requested sample_end ! n))]))
   \<and> page_cycle sample_site sale_url 2 start
        = (Inr False, snd (page_cycle sample_site sale_url 2 start))
   \<and> (\<exists>rows. fst (fetch_properties sample_site (page_url sale_url 2)
                       (snd (requests_get sample_site (page_url sale_url 2)
                               (print (''Fetching data from '' @ page_url sale_url 2 @ ''...'') start))))
                  = Inr rows
               \<and> csv (snd (page_cycle sample_site sale_url 2 start)) = csv start @ rows)
   \<and> tl (csv sample_end) =
        [[''Karen'', ''Nairobi'', ''450 m2'', ''4'', ''None'', ''KSh 45,000,000'', ''House'', ''Sale''],
         [''Thika'', [], ''None'', ''3'', ''2'', ''None'', ''House'', ''Sale'']]"
proof -
  have f: "fst (page_cycle sample_site sale_url 2 start) = Inr False"
    by (simp add: sample_defs run_defs)
  then have h2: "page_cycle sample_site sale_url 2 start
        = (Inr False, snd (page_cycle sample_site sale_url 2 start))"
    by (metis prod.collapse)
  note th = csv_header_then_rows[of 2 sample_site "[sale_url]" start "Inr ()" sample_end
              sale_url 2 start False "snd (page_cycle sample_site sale_url 2 start)"]
  from th sample_run
  have c1: "\<exists>rows. csv sample_end = [''Location'', ''Other Location Details'', ''Size'', ''Bedrooms'',
                         ''Bathrooms'', ''Price'', ''Property Type'', ''Purchase Type''] # rows
         \<and> (\<forall>row \<in> set rows. \<exists>n doc cd price.
               n < length (requested sample_end)
               \<and> http_get sample_site n (requested sample_end ! n) = Inr doc
               \<and> cd \<in> set (cards doc)
               \<and> row = [fst (card_location cd), snd (card_location cd),
                        text_or_None (area_node cd), text_or_None (beds_node cd),
                        text_or_None (baths_node cd), price,
                        fst (get_property_type (requested sample_end ! n)),
                        snd (get_property_type (requested sample_end ! n))])"
    by blast
  from th h2
  have c2: "\<exists>rows. fst (fetch_properties sample_site (page_url sale_url 2)
                       (snd (requests_get sample_site (page_url sale_url 2)
                               (print (''Fetching data from '' @ page_url sale_url 2 @ ''...'') start))))
                  = Inr rows
               \<and> csv (snd (page_cycle sample_site sale_url 2 start)) = csv start @ rows"
    by blast
  have c3: "tl (csv sample_end) =
        [[''Karen'', ''Nairobi'', ''450 m2'', ''4'', ''None'', ''KSh 45,000,000'', ''House'', ''Sale''],
         [''Thika'', [], ''None'', ''3'', ''2'', ''None'', ''House'', ''Sale'']]"
    by (simp add: sample_end_def)
  from sample_run c1 h2 c2 c3 show ?thesis by blast
qed

text \<open>
  Claim C10. The location field of every data row has no comma and neither starts nor
  ends with whitespace: it is the text \<open>None\<close> for a card without location node, and
  otherwise the stripped part of the card's location text before its first comma (the
  whole text, stripped, when it has no comma).
\<close>

theorem location_field_shape:
  assumes "scrape_all_properties fuel e urls s = Some (r, s')"
    and "row \<in> set (tl (csv s'))"
  shows "CHR '','' \<notin> set (row ! 0)
     \<and> (row ! 0 = [] \<or> \<not> isspace (hd (row ! 0)) \<and> \<not> isspace (last (row ! 0)))
     \<and> (\<exists>n doc cd. n < length (requested s') \<and> http_get e n (requested s' ! n) = Inr doc
            \<and> cd \<in> set (cards doc)
            \<and> row ! 0 = (case location_node cd of
                            None \<Rightarrow> ''None''
                          | Some t \<Rightarrow> strip (takeWhile (\<lambda>x. x \<noteq> CHR '','') t)))"
proof -
  from scrape_all_rows[OF assms(1)] obtain rows where rows: "csv s' = header # rows"
      "\<forall>row \<in> set rows. row_ok e s s' row" by blast
  with assms(2) have "row_ok e s s' row" by simp
  then obtain n doc cd price where n: "n < length (requested s')"
      "http_get e n (requested s' ! n) = Inr doc" "cd \<in> set (cards doc)"
      "row = row_of_card (get_property_type (requested s' ! n)) cd price"
    unfolding row_ok_def by blast
  from n(4) have loc: "row ! 0 = fst (card_location cd)" by (simp add: row_of_card_def)
  have shape: "CHR '','' \<notin> set (row ! 0)
     \<and> (row ! 0 = [] \<or> \<not> isspace (hd (row ! 0)) \<and> \<not> isspace (last (row ! 0)))"
    unfolding loc by (rule card_location_shape)
  have "\<exists>n doc cd. n < length (requested s') \<and> http_get e n (requested s' ! n) = Inr doc
            \<and> cd \<in> set (cards doc)
            \<and> row ! 0 = (case location_node cd of
                            None \<Rightarrow> ''None''
                          | Some t \<Rightarrow> strip (takeWhile (\<lambda>x. x \<noteq> CHR '','') t))"
    using n(1,2,3) loc card_location_fst[of cd]
    by (intro exI[of _ n] exI[of _ doc] exI[of _ cd]) simp
  with shape show ?thesis by blast
qed

theorem location_field_shape_witness:
  "scrape_all_properties 2 sample_site [sale_url] start = Some (Inr (), sample_end)
   \<and> [''Karen'', ''Nairobi'', ''450 m2'', ''4'', ''None'', ''KSh 45,000,000'', ''House'', ''Sale'']
        \<in> set (tl (csv sample_end))
   \<and> CHR '','' \<notin> set ''Karen''
   \<and> \<not> isspace (hd ''Karen'') \<and> \<not> isspace (last ''Karen'')
   \<and> (\<exists>n doc cd. n < length (requested sample_end)
            \<and> http_get sample_site n (requested sample_end ! n) = Inr doc
            \<and> cd \<in> set (cards doc)
            \<and> ''Karen'' = (case location_node cd of
                            None \<Rightarrow> ''None''
                          | Some t \<Rightarrow> strip (takeWhile (\<lambda>x. x \<noteq> CHR '','') t)))"
proof -
  have m: "[''Karen'', ''Nairobi'', ''450 m2'', ''4'', ''None'', ''KSh 45,000,000'', ''House'', ''Sale'']
        \<in> set (tl (csv sample_end))"
    by (simp add: sample_end_def)
  from location_field_shape[OF sample_run m]
  have "CHR '','' \<notin> set ''Karen''
     \<and> (''Karen'' = [] \<or> \<not> isspace (hd ''Karen'') \<and> \<not> isspace (last ''Karen''))
     \<and> (\<exists>n doc cd. n < length (requested sample_end)
            \<and> http_get sample_site n (requested sample_end ! n) = Inr doc
            \<and> cd \<in> set (cards doc)
            \<and> ''Karen'' = (case location_node cd of
                            None \<Rightarrow> ''None''
                          | Some t \<Rightarrow> strip (takeWhile (\<lambda>x. x \<noteq> CHR '','') t)))"
    by simp
  with sample_run m show ?thesis by simp
qed

text \<open>
  Claim C3 expects a failed page fetch to be caught, the category to end and the run
  to go on to exit status 0. \<open>fetch_properties\<close> does catch the failure of its own
  request (\<open>fetch_properties_rows\<close>: it always returns), but the request that the
  pagination loop makes first, for the same URL, stands outside every \<open>try\<close>. On the
  sample site whose first request times out, the run ends there with status 1: one
  request made, only the header written, no other category visited.
\<close>

theorem first_fetch_failure_ends_run:
  "http_get flaky_site 0 ''https://www.buyrentkenya.com/houses-for-sale''
     = Inl (RequestException ''timed out'')
   \<and> main 3 flaky_site = Some (1,
       \<lparr>requested = [''https://www.buyrentkenya.com/houses-for-sale''], geocoded = [],
        stdout = [''Fetching data from https://www.buyrentkenya.com/houses-for-sale...''],
        csv = [[''Location'', ''Other Location Details'', ''Size'', ''Bedrooms'', ''Bathrooms'',
                ''Price'', ''Property Type'', ''Purchase Type'']]\<rparr>)"
  by (simp add: main_def base_urls_def flaky_site_def sample_defs run_defs numeral_3_eq_3)


section \<open>Facts about the card loop\<close>

lemma card_loop_append:
  "card_loop e tags (xs @ ys) s =
     (case card_loop e tags xs s of
        (Inl ex, rows, s1) \<Rightarrow> (Inl ex, rows, s1)
      | (Inr u, rows, s1) \<Rightarrow>
          (case card_loop e tags ys s1 of (r, rows', s2) \<Rightarrow> (r, rows @ rows', s2)))"
proof (induction xs arbitrary: s)
  case Nil
  then show ?case by (simp split: prod.splits)
next
  case (Cons c xs)
  obtain r rows s' where cl: "card_loop e tags (c # xs) s = (r, rows, s')"
    by (cases "card_loop e tags (c # xs) s")
  from cl show ?case
  proof (cases rule: card_loop_Cons_cases)
    case (dropped s1)
    then show ?thesis using Cons.IH[of s1] cl
      by (simp add: case_prod_unfold split: sum.splits)
  next
    case (keyerror s1 ex)
    then show ?thesis using cl by (simp add: case_prod_unfold)
  next
    case (yielded s1 u price s2 rows')
    then show ?thesis using Cons.IH[of s2] cl
      by (simp add: case_prod_unfold Let_def row_of_card_def split: sum.splits)
  qed
qed


lemma card_loop_reach:
  assumes "card_loop e tags pre s = (Inr (), rows0, s1)"
  shows "card_loop e tags (pre @ cd # post) s =
           (case card_loop e tags (cd # post) s1 of (r, rows, s3) \<Rightarrow> (r, rows0 @ rows, s3))"
  using assms by (simp add: card_loop_append)

lemma card_loop_Cons_dropped:
  assumes "fst (is_within_nairobi_area e (fst (card_location cd)) s1) = Inr False"
  shows "card_loop e tags (cd # post) s1 =
           card_loop e tags post (snd (is_within_nairobi_area e (fst (card_location cd)) s1))"
  using assms by (simp add: case_prod_unfold Let_def)

lemma card_loop_Cons_yielded:
  assumes "is_within_nairobi_area e (fst (card_location cd)) s1 = (Inr True, s2)"
    and "details_url_of cd = Inr u"
    and "extract_price e u s2 = (Inr price, s3)"
  shows "card_loop e tags (cd # post) s1 =
           (case card_loop e tags post s3 of
              (r, rows, s4) \<Rightarrow> (r, row_of_card tags cd price # rows, s4))"
  using assms by (simp add: case_prod_unfold Let_def row_of_card_def)

lemma card_loop_Cons_geocoded:
  "prefix (geocoded s1 @ [fst (card_location cd) @ '', Kenya''])
          (geocoded (snd (snd (card_loop e tags (cd # post) s1))))"
proof -
  obtain r rows s' where cl: "card_loop e tags (cd # post) s1 = (r, rows, s')"
    by (cases "card_loop e tags (cd # post) s1")
  have "\<exists>w s2. is_within_nairobi_area e (fst (card_location cd)) s1 = (w, s2) \<and> grows s2 s'"
    using cl
  proof (cases rule: card_loop_Cons_cases)
    case (dropped s2)
    from card_loop_rows[OF dropped(2)] dropped(1) show ?thesis by blast
  next
    case (keyerror s2 ex)
    then show ?thesis by (auto simp: grows_refl)
  next
    case (yielded s2 u price s3 rows')
    from extract_price_grows[OF yielded(3)] card_loop_rows[OF yielded(4)]
    have "grows s2 s'" by (blast intro: grows_trans)
    with yielded(1) show ?thesis by blast
  qed
  then obtain w s2 where w: "is_within_nairobi_area e (fst (card_location cd)) s1 = (w, s2)"
      "grows s2 s'" by blast
  from is_within_world[OF w(1)] w(2) cl show ?thesis by (simp add: grows_def)
qed

lemma sample_pre:
  "card_loop sample_site (''House'', ''Sale'') [nyali_card] start =
     (Inr (), [], \<lparr>requested = [], geocoded = [''Nyali, Kenya''], stdout = [], csv = []\<rparr>)"
  by (simp add: sample_defs run_defs)

lemma missing_href_ends_loop:
  "card_loop sample_site (''House'', ''Sale'') [nohref_card, thika_card] start =
     (Inl (KeyError ''href''), [],
      \<lparr>requested = [], geocoded = [''Karen, Kenya''], stdout = [], csv = []\<rparr>)"
  by (simp add: nohref_card_def sample_defs run_defs)

section \<open>Claims about single cards\<close>

text \<open>
  Claim C4, as the program has it. For every card that the loop reaches, that the
  filter accepts and whose link node is absent, the text \<open>None\<close> is handed to
  \<open>extract_price\<close> as the detail URL; the request for it always fails, the price field
  of the card's row is \<open>None\<close>, the row is yielded and the loop goes on with the next
  card. For every such card whose detail URL is fetched and the fetch fails, the price
  field is \<open>None\<close>, the row is yielded and the loop goes on with the next card.
\<close>

theorem failed_detail_fetch_gives_None:
  assumes "card_loop e tags pre s = (Inr (), rows0, s1)"
    and "is_within_nairobi_area e (fst (card_location cd)) s1 = (Inr True, s2)"
  shows "(link_node cd = None \<longrightarrow>
            details_url_of cd = Inr ''None''
            \<and> requested (snd (extract_price e ''None'' s2)) = requested s2 @ [''None'']
            \<and> fst (extract_price e ''None'' s2) = Inr ''None''
            \<and> card_loop e tags (pre @ cd # post) s =
                (case card_loop e tags post (snd (extract_price e ''None'' s2)) of
                   (r, rows, s3) \<Rightarrow> (r, rows0 @ row_of_card tags cd ''None'' # rows, s3)))
       \<and> (details_url_of cd = Inr u \<and> fst (requests_get e u s2) = Inl ex \<longrightarrow>
            fst (extract_price e u s2) = Inr ''None''
            \<and> card_loop e tags (pre @ cd # post) s =
                (case card_loop e tags post (snd (extract_price e u s2)) of
                   (r, rows, s3) \<Rightarrow> (r, rows0 @ row_of_card tags cd ''None'' # rows, s3)))
       \<and> row_of_card tags cd ''None'' ! 5 = ''None''"
proof -
  have gen: "fst (extract_price e v s2) = Inr ''None''
            \<and> card_loop e tags (pre @ cd # post) s =
                (case card_loop e tags post (snd (extract_price e v s2)) of
                   (r, rows, s3) \<Rightarrow> (r, rows0 @ row_of_card tags cd ''None'' # rows, s3))"
    if du: "details_url_of cd = Inr v" and fl: "fst (requests_get e v s2) = Inl x" for v x
  proof -
    from fl have b: "fst (extract_price e v s2) = Inr ''None''" by (rule extract_price_failed)
    then have ep: "extract_price e v s2 = (Inr ''None'', snd (extract_price e v s2))"
      by (rule pair_fst_eq)
    have "card_loop e tags (pre @ cd # post) s =
           (case card_loop e tags post (snd (extract_price e v s2)) of
              (r, rows, s3) \<Rightarrow> (r, rows0 @ row_of_card tags cd ''None'' # rows, s3))"
      unfolding card_loop_reach[OF assms(1)] card_loop_Cons_yielded[OF assms(2) du ep]
      by (simp add: case_prod_unfold)
    with b show ?thesis by (rule conjI)
  qed
  have a: "link_node cd = None \<longrightarrow>
            details_url_of cd = Inr ''None''
            \<and> requested (snd (extract_price e ''None'' s2)) = requested s2 @ [''None'']
            \<and> fst (extract_price e ''None'' s2) = Inr ''None''
            \<and> card_loop e tags (pre @ cd # post) s =
                (case card_loop e tags post (snd (extract_price e ''None'' s2)) of
                   (r, rows, s3) \<Rightarrow> (r, rows0 @ row_of_card tags cd ''None'' # rows, s3))"
  proof
    assume l: "link_node cd = None"
    then have du: "details_url_of cd = Inr ''None''" by (simp add: details_url_of_def)
    have fl: "fst (requests_get e ''None'' s2) = Inl (MissingSchema ''None'')"
      by (rule requests_get_no_scheme) simp
    have rq: "requested (snd (extract_price e ''None'' s2)) = requested s2 @ [''None'']"
      using extract_price_world[of e "''None''" s2] by (cases "extract_price e ''None'' s2") simp
    from du rq gen[OF du fl]
    show "details_url_of cd = Inr ''None''
            \<and> requested (snd (extract_price e ''None'' s2)) = requested s2 @ [''None'']
            \<and> fst (extract_price e ''None'' s2) = Inr ''None''
            \<and> card_loop e tags (pre @ cd # post) s =
                (case card_loop e tags post (snd (extract_price e ''None'' s2)) of
                   (r, rows, s3) \<Rightarrow> (r, rows0 @ row_of_card tags cd ''None'' # rows, s3))"
      by blast
  qed
  have b: "details_url_of cd = Inr u \<and> fst (requests_get e u s2) = Inl ex \<longrightarrow>
            fst (extract_price e u s2) = Inr ''None''
            \<and> card_loop e tags (pre @ cd # post) s =
                (case card_loop e tags post (snd (extract_price e u s2)) of
                   (r, rows, s3) \<Rightarrow> (r, rows0 @ row_of_card tags cd ''None'' # rows, s3))"
    using gen[of u ex] by blast
  have c: "row_of_card tags cd ''None'' ! 5 = ''None''" by (simp add: row_of_card_def)
  show ?thesis by (rule conjI[OF a conjI[OF b c]])
qed

theorem failed_detail_fetch_gives_None_witness:
  "card_loop sample_site (''House'', ''Sale'') [nyali_card] start =
     (Inr (), [], \<lparr>requested = [], geocoded = [''Nyali, Kenya''], stdout = [], csv = []\<rparr>)
   \<and> is_within_nairobi_area sample_site (fst (card_location thika_card))
         \<lparr>requested = [], geocoded = [''Nyali, Kenya''], stdout = [], csv = []\<rparr>
       = (Inr True, \<lparr>requested = [], geocoded = [''Nyali, Kenya'', ''Thika, Kenya''],
                      stdout = [], csv = []\<rparr>)
   \<and> link_node thika_card = None
   \<and> fst (extract_price sample_site ''None''
             \<lparr>requested = [], geocoded = [''Nyali, Kenya'', ''Thika, Kenya''],
               stdout = [], csv = []\<rparr>) = Inr ''None''
   \<and> fst (snd (card_loop sample_site (''House'', ''Sale'') ([nyali_card] @ thika_card # []) start))
       = [[''Thika'', [], ''None'', ''3'', ''2'', ''None'', ''House'', ''Sale'']]
   \<and> card_loop flaky_site (''House'', ''Sale'') [] start = (Inr (), [], start)
   \<and> is_within_nairobi_area flaky_site (fst (card_location karen_card)) start
       = (Inr True, \<lparr>requested = [], geocoded = [''Karen, Kenya''], stdout = [], csv = []\<rparr>)
   \<and> details_url_of karen_card = Inr ''https://www.buyrentkenya.com/listings/karen-villa''
   \<and> fst (requests_get flaky_site ''https://www.buyrentkenya.com/listings/karen-villa''
             \<lparr>requested = [], geocoded = [''Karen, Kenya''], stdout = [], csv = []\<rparr>)
       = Inl (RequestException ''timed out'')
   \<and> fst (snd (card_loop flaky_site (''House'', ''Sale'') ([] @ karen_card # [thika_card]) start))
       = [[''Karen'', ''Nairobi'', ''450 m2'', ''4'', ''None'', ''None'', ''House'', ''Sale''],
          [''Thika'', [], ''None'', ''3'', ''2'', ''None'', ''House'', ''Sale'']]"
proof -
  let ?s2 = "\<lparr>requested = [], geocoded = [''Nyali, Kenya'', ''Thika, Kenya''],
               stdout = [], csv = []\<rparr>"
  have h2: "is_within_nairobi_area sample_site (fst (card_location thika_card))
         \<lparr>requested = [], geocoded = [''Nyali, Kenya''], stdout = [], csv = []\<rparr>
       = (Inr True, ?s2)"
    by (simp add: sample_defs run_defs)
  have l: "link_node thika_card = None" by (simp add: thika_card_def)
  note th1 = failed_detail_fetch_gives_None[OF sample_pre h2, where post = "[]"]
  from th1 l have c1: "fst (extract_price sample_site ''None'' ?s2) = Inr ''None''" by blast
  from th1 l have "card_loop sample_site (''House'', ''Sale'') ([nyali_card] @ thika_card # []) start =
           (case card_loop sample_site (''House'', ''Sale'') []
                   (snd (extract_price sample_site ''None'' ?s2)) of
              (r, rows, s3) \<Rightarrow> (r, [] @ row_of_card (''House'', ''Sale'') thika_card ''None'' # rows, s3))"
    by blast
  then have c2: "fst (snd (card_loop sample_site (''House'', ''Sale'') ([nyali_card] @ thika_card # []) start))
       = [[''Thika'', [], ''None'', ''3'', ''2'', ''None'', ''House'', ''Sale'']]"
    by (simp add: row_of_card_def card_location_def text_or_None_def parse_location_def
          strip_def isspace_def thika_card_def)
  let ?u = "''https://www.buyrentkenya.com/listings/karen-villa''"
  let ?k2 = "\<lparr>requested = [], geocoded = [''Karen, Kenya''], stdout = [], csv = []\<rparr>"
  have g1: "card_loop flaky_site (''House'', ''Sale'') [] start = (Inr (), [], start)" by simp
  have g2: "is_within_nairobi_area flaky_site (fst (card_location karen_card)) start
       = (Inr True, ?k2)"
    by (simp add: flaky_site_def sample_defs run_defs)
  have g3: "details_url_of karen_card = Inr ?u"
    by (simp add: details_url_of_def karen_card_def)
  have g4: "fst (requests_get flaky_site ?u ?k2) = Inl (RequestException ''timed out'')"
    by (simp add: flaky_site_def requests_get_def)
  note th2 = failed_detail_fetch_gives_None[OF g1 g2, where post = "[thika_card]" and u = ?u
      and ex = "RequestException ''timed out''"]
  from th2 g3 g4 have "card_loop flaky_site (''House'', ''Sale'') ([] @ karen_card # [thika_card]) start =
           (case card_loop flaky_site (''House'', ''Sale'') [thika_card]
                   (snd (extract_price flaky_site ?u ?k2)) of
              (r, rows, s3) \<Rightarrow> (r, [] @ row_of_card (''House'', ''Sale'') karen_card ''None'' # rows, s3))"
    by blast
  then have c3: "fst (snd (card_loop flaky_site (''House'', ''Sale'') ([] @ karen_card # [thika_card]) start))
       = [[''Karen'', ''Nairobi'', ''450 m2'', ''4'', ''None'', ''None'', ''House'', ''Sale''],
          [''Thika'', [], ''None'', ''3'', ''2'', ''None'', ''House'', ''Sale'']]"
    by (simp add: row_of_card_def flaky_site_def sample_defs run_defs)
  from sample_pre h2 l c1 c2 g1 g2 g3 g4 c3 show ?thesis by blast
qed

text \<open>
  Claim C4 as stated says that \<open>extract_price\<close> is not invoked for a card without link
  node. It is: for the Thika card, which has none, the loop hands the text \<open>None\<close> to
  \<open>requests.get\<close>, and the price \<open>None\<close> of its row is the fallback of that refused
  request.
\<close>

theorem detail_fetch_invoked_without_link:
  "link_node thika_card = None \<and> requested start = []
   \<and> card_loop sample_site (''House'', ''Sale'') [thika_card] start =
       (Inr (), [[''Thika'', [], ''None'', ''3'', ''2'', ''None'', ''House'', ''Sale'']],
        \<lparr>requested = [''None''], geocoded = [''Thika, Kenya''],
         stdout = [''Error fetching details from None: '' @ error_text (MissingSchema ''None'')],
         csv = []\<rparr>)"
  by (simp add: sample_defs run_defs)

text \<open>
  Claim C5, as the program has it. A card without location node gets \<open>None\<close> for both
  location fields. The filter is consulted on every card the loop reaches, with the
  card's location field, be it parsed or the text \<open>None\<close>; a card for which it returns
  false yields no row, and every row yielded belongs to a card for which the geocoder
  gave a point at most 30 from the centre. The loop reaches a card when no card before
  it on the page raised (\<open>missing_href_ends_loop\<close> shows a page where one does).
\<close>

theorem filter_consulted_on_every_card:
  assumes "card_loop e tags pre s = (Inr (), rows0, s1)"
  shows "(location_node cd = None \<longrightarrow> card_location cd = (''None'', ''None''))
     \<and> prefix (geocoded s1 @ [fst (card_location cd) @ '', Kenya''])
              (geocoded (snd (snd (card_loop e tags (pre @ cd # post) s))))
     \<and> (fst (is_within_nairobi_area e (fst (card_location cd)) s1) = Inr False \<longrightarrow>
          card_loop e tags (pre @ cd # post) s =
            (case card_loop e tags post
                    (snd (is_within_nairobi_area e (fst (card_location cd)) s1)) of
               (r, rows, s3) \<Rightarrow> (r, rows0 @ rows, s3)))
     \<and> (\<forall>row \<in> set (fst (snd (card_loop e tags (pre @ cd # post) s))).
           \<exists>c price n p d. c \<in> set (pre @ cd # post) \<and> row = row_of_card tags c price
             \<and> length (geocoded s) \<le> n
             \<and> n < length (geocoded (snd (snd (card_loop e tags (pre @ cd # post) s))))
             \<and> geocoded (snd (snd (card_loop e tags (pre @ cd # post) s))) ! n
                  = fst (card_location c) @ '', Kenya''
             \<and> geocode e n (fst (card_location c) @ '', Kenya'') = Inr (Some p)
             \<and> geodesic_km e NAIROBI_COORDS p = Inr d \<and> d \<le> 30)"
proof -
  have a: "location_node cd = None \<longrightarrow> card_location cd = (''None'', ''None'')"
    by (simp add: card_location_def)
  have b: "prefix (geocoded s1 @ [fst (card_location cd) @ '', Kenya''])
              (geocoded (snd (snd (card_loop e tags (pre @ cd # post) s))))"
    unfolding card_loop_reach[OF assms]
    using card_loop_Cons_geocoded[of s1 cd e tags post] by (simp add: case_prod_unfold)
  have c: "fst (is_within_nairobi_area e (fst (card_location cd)) s1) = Inr False \<longrightarrow>
          card_loop e tags (pre @ cd # post) s =
            (case card_loop e tags post
                    (snd (is_within_nairobi_area e (fst (card_location cd)) s1)) of
               (r, rows, s3) \<Rightarrow> (r, rows0 @ rows, s3))"
  proof
    assume f: "fst (is_within_nairobi_area e (fst (card_location cd)) s1) = Inr False"
    show "card_loop e tags (pre @ cd # post) s =
            (case card_loop e tags post
                    (snd (is_within_nairobi_area e (fst (card_location cd)) s1)) of
               (r, rows, s3) \<Rightarrow> (r, rows0 @ rows, s3))"
      unfolding card_loop_reach[OF assms] card_loop_Cons_dropped[OF f] ..
  qed
  obtain r rows s' where cl: "card_loop e tags (pre @ cd # post) s = (r, rows, s')"
    by (cases "card_loop e tags (pre @ cd # post) s")
  from card_loop_rows[OF cl]
  have rows: "\<forall>row \<in> set rows. \<exists>c price. c \<in> set (pre @ cd # post) \<and> row = row_of_card tags c price
            \<and> geo_checked e (length (geocoded s)) s' (fst (card_location c))" by blast
  have d: "\<forall>row \<in> set (fst (snd (card_loop e tags (pre @ cd # post) s))).
           \<exists>c price n p d. c \<in> set (pre @ cd # post) \<and> row = row_of_card tags c price
             \<and> length (geocoded s) \<le> n
             \<and> n < length (geocoded (snd (snd (card_loop e tags (pre @ cd # post) s))))
             \<and> geocoded (snd (snd (card_loop e tags (pre @ cd # post) s))) ! n
                  = fst (card_location c) @ '', Kenya''
             \<and> geocode e n (fst (card_location c) @ '', Kenya'') = Inr (Some p)
             \<and> geodesic_km e NAIROBI_COORDS p = Inr d \<and> d \<le> 30"
    unfolding cl
  proof
    fix row assume "row \<in> set (fst (snd (r, rows, s')))"
    then have "row \<in> set rows" by simp
    with rows obtain c price where c: "c \<in> set (pre @ cd # post)" "row = row_of_card tags c price"
        "geo_checked e (length (geocoded s)) s' (fst (card_location c))" by blast
    from c(3) obtain n p d where n: "length (geocoded s) \<le> n" "n < length (geocoded s')"
        "geocoded s' ! n = fst (card_location c) @ '', Kenya''"
        "geocode e n (fst (card_location c) @ '', Kenya'') = Inr (Some p)"
        "geodesic_km e NAIROBI_COORDS p = Inr d" "d \<le> 30"
      unfolding geo_checked_def MAX_DISTANCE_def by blast
    with c(1,2) show "\<exists>c price n p d. c \<in> set (pre @ cd # post) \<and> row = row_of_card tags c price
             \<and> length (geocoded s) \<le> n
             \<and> n < length (geocoded (snd (snd (r, rows, s'))))
             \<and> geocoded (snd (snd (r, rows, s'))) ! n
                  = fst (card_location c) @ '', Kenya''
             \<and> geocode e n (fst (card_location c) @ '', Kenya'') = Inr (Some p)
             \<and> geodesic_km e NAIROBI_COORDS p = Inr d \<and> d \<le> 30"
      by (intro exI[of _ c] exI[of _ price] exI[of _ n] exI[of _ p] exI[of _ d]) simp
  qed
  from a b c d show ?thesis by blast
qed

theorem filter_consulted_on_every_card_witness:
  "card_loop sample_site (''House'', ''Sale'') [nyali_card] start =
     (Inr (), [], \<lparr>requested = [], geocoded = [''Nyali, Kenya''], stdout = [], csv = []\<rparr>)
   \<and> location_node unplaced_card = None
   \<and> card_location unplaced_card = (''None'', ''None'')
   \<and> fst (is_within_nairobi_area sample_site (fst (card_location unplaced_card))
         \<lparr>requested = [], geocoded = [''Nyali, Kenya''], stdout = [], csv = []\<rparr>) = Inr False
   \<and> prefix ([''Nyali, Kenya''] @ [''None'' @ '', Kenya''])
        (geocoded (snd (snd (card_loop sample_site (''House'', ''Sale'')
                               ([nyali_card] @ unplaced_card # [thika_card]) start))))
   \<and> fst (snd (card_loop sample_site (''House'', ''Sale'')
                  ([nyali_card] @ unplaced_card # [thika_card]) start))
       = [[''Thika'', [], ''None'', ''3'', ''2'', ''None'', ''House'', ''Sale'']]"
proof -
  let ?s1 = "\<lparr>requested = [], geocoded = [''Nyali, Kenya''], stdout = [], csv = []\<rparr>"
  have l: "location_node unplaced_card = None" by (simp add: unplaced_card_def)
  have f: "fst (is_within_nairobi_area sample_site (fst (card_location unplaced_card)) ?s1)
             = Inr False"
    by (simp add: sample_defs run_defs)
  note th = filter_consulted_on_every_card[OF sample_pre, of unplaced_card "[thika_card]"]
  from th l have c1: "card_location unplaced_card = (''None'', ''None'')" by blast
  from th have "prefix (geocoded ?s1 @ [fst (card_location unplaced_card) @ '', Kenya''])
        (geocoded (snd (snd (card_loop sample_site (''House'', ''Sale'')
                               ([nyali_card] @ unplaced_card # [thika_card]) start))))"
    by blast
  with c1 have c2: "prefix ([''Nyali, Kenya''] @ [''None'' @ '', Kenya''])
        (geocoded (snd (snd (card_loop sample_site (''House'', ''Sale'')
                               ([nyali_card] @ unplaced_card # [thika_card]) start))))"
    by simp
  from th f have "card_loop sample_site (''House'', ''Sale'')
                  ([nyali_card] @ unplaced_card # [thika_card]) start =
            (case card_loop sample_site (''House'', ''Sale'') [thika_card]
                    (snd (is_within_nairobi_area sample_site (fst (card_location unplaced_card)) ?s1)) of
               (r, rows, s3) \<Rightarrow> (r, [] @ rows, s3))"
    by blast
  then have c3: "fst (snd (card_loop sample_site (''House'', ''Sale'')
                  ([nyali_card] @ unplaced_card # [thika_card]) start))
       = [[''Thika'', [], ''None'', ''3'', ''2'', ''None'', ''House'', ''Sale'']]"
    by (simp add: sample_defs run_defs)
  from sample_pre l c1 f c2 c3 show ?thesis by blast
qed

text \<open>
  Claim C5 as stated also says that the filter is consulted only on a successfully
  parsed location. For the card without location node the geocoder is asked about
  \<open>None, Kenya\<close>.
\<close>

theorem filter_consulted_without_location:
  "location_node unplaced_card = None \<and> geocoded start = []
   \<and> card_loop sample_site (''House'', ''Sale'') [unplaced_card] start =
       (Inr (), [], \<lparr>requested = [], geocoded = [''None, Kenya''], stdout = [], csv = []\<rparr>)"
  by (simp add: sample_defs run_defs)



end
